theory Spec2Isabelle
  imports Main
begin

section \<open>Go runtime and standard library, as far as the program uses them\<close>

text \<open>
  A Go \<^verbatim>\<open>string\<close> is a sequence of bytes, here a \<^typ>\<open>string\<close> (a list of
  \<^typ>\<open>char\<close>, one per byte). A run-time panic is a value of its own: the only
  panics the program can raise are index expressions out of range, which carry the
  index and the length.
\<close>

datatype go_panic = IndexOutOfRange int nat

text \<open>\<^verbatim>\<open>strings.IndexByte\<close>: the index of the first occurrence, \<open>None\<close> for Go's \<open>-1\<close>.\<close>

fun IndexByte :: "string \<Rightarrow> char \<Rightarrow> nat option" where
  "IndexByte [] c = None"
| "IndexByte (x # xs) c = (if x = c then Some 0 else map_option Suc (IndexByte xs c))"

text \<open>The slice expression \<^verbatim>\<open>s[a:b]\<close>; every use below has \<open>a \<le> b \<le> len(s)\<close>.\<close>

definition slice :: "'a list \<Rightarrow> nat \<Rightarrow> nat \<Rightarrow> 'a list" where
  "slice s a b = take (b - a) (drop a s)"

text \<open>
  \<^verbatim>\<open>strings.TrimSpace\<close> removes leading and trailing white space as
  \<^verbatim>\<open>unicode.IsSpace\<close> defines it, decoding the bytes as UTF-8. The white-space code
  points are U+0009..U+000D, U+0020, U+0085, U+00A0, U+1680, U+2000..U+200A, U+2028,
  U+2029, U+202F, U+205F and U+3000; the list holds their UTF-8 encodings. A byte
  sequence that is no valid encoding decodes to U+FFFD, which is not white space.
\<close>

definition utf8_space_runes :: "string list" where
  "utf8_space_runes =
    [[CHR 0x09], [CHR 0x0A], [CHR 0x0B], [CHR 0x0C], [CHR 0x0D], [CHR 0x20],
     [CHR 0xC2, CHR 0x85], [CHR 0xC2, CHR 0xA0],
     [CHR 0xE1, CHR 0x9A, CHR 0x80],
     [CHR 0xE2, CHR 0x80, CHR 0x80], [CHR 0xE2, CHR 0x80, CHR 0x81],
     [CHR 0xE2, CHR 0x80, CHR 0x82], [CHR 0xE2, CHR 0x80, CHR 0x83],
     [CHR 0xE2, CHR 0x80, CHR 0x84], [CHR 0xE2, CHR 0x80, CHR 0x85],
     [CHR 0xE2, CHR 0x80, CHR 0x86], [CHR 0xE2, CHR 0x80, CHR 0x87],
     [CHR 0xE2, CHR 0x80, CHR 0x88], [CHR 0xE2, CHR 0x80, CHR 0x89],
     [CHR 0xE2, CHR 0x80, CHR 0x8A],
     [CHR 0xE2, CHR 0x80, CHR 0xA8], [CHR 0xE2, CHR 0x80, CHR 0xA9],
     [CHR 0xE2, CHR 0x80, CHR 0xAF],
     [CHR 0xE2, CHR 0x81, CHR 0x9F],
     [CHR 0xE3, CHR 0x80, CHR 0x80]]"

text \<open>The width in bytes of the white-space rune that \<open>s\<close> starts with, \<open>0\<close> if none.\<close>

definition leading_space :: "string \<Rightarrow> nat" where
  "leading_space s =
     (case filter (\<lambda>r. take (length r) s = r) utf8_space_runes of
        [] \<Rightarrow> 0 | r # _ \<Rightarrow> length r)"

text \<open>The width in bytes of the white-space rune that \<open>s\<close> ends with, \<open>0\<close> if none.\<close>

definition trailing_space :: "string \<Rightarrow> nat" where
  "trailing_space s =
     (case filter (\<lambda>r. length r \<le> length s \<and> drop (length s - length r) s = r)
             utf8_space_runes of
        [] \<Rightarrow> 0 | r # _ \<Rightarrow> length r)"

function TrimLeft :: "string \<Rightarrow> string" where
  "TrimLeft s =
     (if s = [] \<or> leading_space s = 0 then s else TrimLeft (drop (leading_space s) s))"
  by pat_completeness auto
termination
  by (relation "measure length") auto

function TrimRight :: "string \<Rightarrow> string" where
  "TrimRight s =
     (if s = [] \<or> trailing_space s = 0 then s
      else TrimRight (take (length s - trailing_space s) s))"
  by pat_completeness auto
termination
  by (relation "measure length") auto

declare TrimLeft.simps [simp del] TrimRight.simps [simp del]

definition TrimSpace :: "string \<Rightarrow> string" where
  "TrimSpace s = TrimRight (TrimLeft s)"

text \<open>\<^verbatim>\<open>strings.Split(s, ",")\<close> for a one-byte separator: never an empty result.\<close>

fun Split :: "string \<Rightarrow> char \<Rightarrow> string list" where
  "Split [] sep = [[]]"
| "Split (x # xs) sep =
     (if x = sep then [] # Split xs sep
      else (case Split xs sep of [] \<Rightarrow> [[x]] | w # ws \<Rightarrow> (x # w) # ws))"

text \<open>\<^verbatim>\<open>strings.Join\<close>, and the verb \<^verbatim>\<open>%+v\<close> of a \<^verbatim>\<open>[]string\<close>.\<close>

fun Join :: "string list \<Rightarrow> string \<Rightarrow> string" where
  "Join [] sep = []"
| "Join [x] sep = x"
| "Join (x # y # ys) sep = x @ sep @ Join (y # ys) sep"

definition fmt_strings :: "string list \<Rightarrow> string" where
  "fmt_strings xs = ''['' @ Join xs '' '' @ '']''"

section \<open>The tag-balance validator\<close>

text \<open>
  \<^verbatim>\<open>IsValidHTML\<close> returns \<open>Inr None\<close> for Go's \<open>nil\<close>, \<open>Inr (Some msg)\<close> for an
  error with that message, and \<open>Inl p\<close> when the call panics. The loop of the source
  keeps \<open>offset\<close> and the stack \<open>tags\<close> (top at the end of the slice). The one
  expression of the loop that can panic is \<^verbatim>\<open>tags[len(tags)-1]\<close>, evaluated for a
  closing tag before anything looks at the length of \<^verbatim>\<open>tags\<close>; every slice
  expression stays within the string.
\<close>

definition tags_left :: "string list \<Rightarrow> go_panic + string option" where
  "tags_left tags =
     (if length tags \<noteq> 0 then Inr (Some (''not all tags closed: '' @ fmt_strings tags))
      else Inr None)"

function IsValidHTML_loop :: "string \<Rightarrow> nat \<Rightarrow> string list \<Rightarrow> go_panic + string option" where
  "IsValidHTML_loop s offset tags =
     (if \<not> offset < length s then tags_left tags
      else case IndexByte (drop offset s) (CHR ''<'') of
        None \<Rightarrow> tags_left tags
      | Some i \<Rightarrow>
          let start = i + offset in
          if offset < start \<and> IndexByte (slice s offset start) (CHR ''>'') \<noteq> None
          then Inr (Some ''found closing bracket before an opening bracket'')
          else
            let offset' = (if offset < start then start else offset) in
            (case IndexByte (drop start s) (CHR ''>'') of
              None \<Rightarrow> Inr (Some ''found opening bracket but no closing bracket'')
            | Some e \<Rightarrow>
                let end' = e + offset';
                    tag0 = TrimSpace (slice s (start + 1) end');
                    tag = (case IndexByte tag0 (CHR '' '') of
                             Some idx \<Rightarrow> take idx tag0 | None \<Rightarrow> tag0)
                in
                if tag = [] then Inr (Some ''empty tag found'')
                else if hd tag = CHR ''/'' then
                  (if length tags = 0 then Inl (IndexOutOfRange (- 1) 0)
                   else
                     let last' = last tags; expected = tl tag in
                     if last' \<noteq> expected
                     then Inr (Some (''mismatched close tag found: '' @ last' @ '' != '' @ expected))
                     else IsValidHTML_loop s (end' + 1) (butlast tags))
                else IsValidHTML_loop s (end' + 1) (tags @ [tag])))"
  by pat_completeness auto
termination
  by (relation "measure (\<lambda>(s, offset, tags). length s - offset)") auto

declare IsValidHTML_loop.simps [simp del]

definition IsValidHTML :: "string \<Rightarrow> go_panic + string option" where
  "IsValidHTML s = IsValidHTML_loop s 0 []"

text \<open>
  One turn of the loop, cut in two for the proofs about it. \<open>locate_tag\<close> is the first
  half of the body: the search for the next \<^verbatim>\<open><\<close> from \<open>offset\<close>, the check for a
  \<^verbatim>\<open>>\<close> before it, and the search for the \<^verbatim>\<open>>\<close> that ends the tag; it gives the
  indexes \<open>start\<close> and \<open>end\<close> of the two brackets. \<open>apply_tag\<close> is the second half: the
  tag name between them, pushed or popped. That the loop is these two steps repeated is
  the lemma \<open>IsValidHTML_loop_turn\<close>.
\<close>

datatype locate = NoTag | Stray | NoClose | Tag nat nat

definition locate_tag :: "string \<Rightarrow> nat \<Rightarrow> locate" where
  "locate_tag s offset =
     (if \<not> offset < length s then NoTag
      else case IndexByte (drop offset s) (CHR ''<'') of
        None \<Rightarrow> NoTag
      | Some i \<Rightarrow>
          if 0 < i \<and> IndexByte (slice s offset (i + offset)) (CHR ''>'') \<noteq> None then Stray
          else (case IndexByte (drop (i + offset) s) (CHR ''>'') of
                  None \<Rightarrow> NoClose
                | Some e \<Rightarrow> Tag (i + offset) (e + (i + offset))))"

datatype html_step = Return "go_panic + string option" | Continue nat "string list"

definition apply_tag :: "string \<Rightarrow> string list \<Rightarrow> nat \<Rightarrow> nat \<Rightarrow> html_step" where
  "apply_tag s ts start end' =
     (let tag0 = TrimSpace (slice s (start + 1) end');
          tag = (case IndexByte tag0 (CHR '' '') of Some idx \<Rightarrow> take idx tag0 | None \<Rightarrow> tag0)
      in
      if tag = [] then Return (Inr (Some ''empty tag found''))
      else if hd tag = CHR ''/'' then
        (if length ts = 0 then Return (Inl (IndexOutOfRange (- 1) 0))
         else if last ts \<noteq> tl tag
         then Return (Inr (Some (''mismatched close tag found: '' @ last ts @ '' != '' @ tl tag)))
         else Continue (end' + 1) (butlast ts))
      else Continue (end' + 1) (ts @ [tag]))"

section \<open>Parsing the entry ID and finding the cloze deletion\<close>

text \<open>
  \<^verbatim>\<open>strconv.ParseInt(s, 10, 0)\<close>: an optional sign, then decimal digits only (no
  underscores with an explicit base), the value within 64 bits. The error is a
  \<^verbatim>\<open>*NumError\<close> whose \<^verbatim>\<open>Err\<close> is one of the two below.
\<close>

datatype NumError = ErrSyntax | ErrRange

definition is_digit :: "char \<Rightarrow> bool" where
  "is_digit c \<longleftrightarrow> (48::int) \<le> of_char c \<and> of_char c \<le> (57::int)"

text \<open>The \<^verbatim>\<open>uint64\<close> accumulator of \<^verbatim>\<open>ParseUint\<close> is an \<^typ>\<open>int\<close> kept below \<open>2 ^ 64\<close>.\<close>

fun ParseUint_loop :: "int \<Rightarrow> string \<Rightarrow> NumError + int" where
  "ParseUint_loop n [] = Inr n"
| "ParseUint_loop n (c # cs) =
     (if \<not> is_digit c then Inl ErrSyntax
      else if n \<ge> (2 ^ 64 - 1) div 10 + 1 then Inl ErrRange
      else
        let n1 = n * 10 + (of_char c - 48) in
        if n1 > 2 ^ 64 - 1 then Inl ErrRange else ParseUint_loop n1 cs)"

definition ParseUint :: "string \<Rightarrow> NumError + int" where
  "ParseUint s = (if s = [] then Inl ErrSyntax else ParseUint_loop 0 s)"

definition ParseInt :: "string \<Rightarrow> NumError + int" where
  "ParseInt s =
     (if s = [] then Inl ErrSyntax
      else
        let neg = (hd s = CHR ''-'');
            s1 = (if hd s = CHR ''+'' \<or> hd s = CHR ''-'' then tl s else s)
        in
        case ParseUint s1 of
          Inl err \<Rightarrow> Inl err
        | Inr un \<Rightarrow>
            if \<not> neg \<and> un \<ge> 2 ^ 63 then Inl ErrRange
            else if neg \<and> un > 2 ^ 63 then Inl ErrRange
            else Inr (if neg then - un else un))"

text \<open>
  \<^verbatim>\<open>ClozeDeletionRegexp = regexp.MustCompile("{{c[[:digit:]]::(.+)}}")\<close>. The braces
  are literals, \<^verbatim>\<open>[[:digit:]]\<close> is an ASCII digit, and \<^verbatim>\<open>.\<close> is any rune but
  a line feed. Every byte of the literals is ASCII, so a match starts and ends at rune
  boundaries whatever the other bytes are, and the match can be found on bytes.
  \<open>cloze_at s\<close> is the match anchored at the start of \<open>s\<close>: the group \<^verbatim>\<open>(.+)\<close> is
  greedy, so it runs to the last \<^verbatim>\<open>}}\<close> before any line feed that leaves it at least
  one byte. The result is the list \<^verbatim>\<open>FindStringSubmatch\<close> returns: the whole match,
  then the group.
\<close>

definition close_positions :: "string \<Rightarrow> nat list" where
  "close_positions r =
     filter (\<lambda>j. r ! j = CHR ''}'' \<and> r ! (j + 1) = CHR ''}'') [1 ..< length r - 1]"

definition cloze_at :: "string \<Rightarrow> string list option" where
  "cloze_at s =
     (if 6 \<le> length s \<and> take 3 s = ''{{c'' \<and> is_digit (s ! 3) \<and> take 2 (drop 4 s) = ''::''
      then
        let r = takeWhile (\<lambda>x. x \<noteq> CHR 0x0A) (drop 6 s) in
        (case close_positions r of
           [] \<Rightarrow> None
         | j # js \<Rightarrow> Some [take (6 + last (j # js) + 2) s, take (last (j # js)) r])
      else None)"

text \<open>The leftmost match wins.\<close>

fun FindStringSubmatch :: "string \<Rightarrow> string list option" where
  "FindStringSubmatch [] = None"
| "FindStringSubmatch (x # xs) =
     (case cloze_at (x # xs) of Some m \<Rightarrow> Some m | None \<Rightarrow> FindStringSubmatch xs)"

section \<open>Entries and the line scanner\<close>

definition EntryID :: nat where "EntryID = 0"
definition EntryUsage :: nat where "EntryUsage = 1"
definition EntryTranslation :: nat where "EntryTranslation = 2"
definition EntryWord :: nat where "EntryWord = 3"
definition EntryPronunciation :: nat where "EntryPronunciation = 4"
definition EntryDefinition :: nat where "EntryDefinition = 5"
definition EntryTags :: nat where "EntryTags = 6"
definition EntryEnd :: nat where "EntryEnd = 7"

definition EntryDirtyMarker :: char where "EntryDirtyMarker = CHR ''*''"
definition EntryDelimiter :: string where "EntryDelimiter = ''---''"

definition digitsOffset :: nat where "digitsOffset = 3"
definition dirtyOffset :: nat where "dirtyOffset = digitsOffset + 1"
definition commentOffset :: nat where "commentOffset = dirtyOffset + 2"

text \<open>
  The struct \<^verbatim>\<open>Entry\<close>. The fields \<^verbatim>\<open>id\<close> and \<^verbatim>\<open>definition\<close> are renamed:
  the first is a constant of HOL, the second a keyword.
\<close>

record Entry =
  entry_id :: int
  dirty :: bool
  comments :: "string list"
  input :: string
  usage :: string
  translation :: string
  word :: string
  pronunciation :: string
  entry_definition :: string
  tags :: "string list"

text \<open>The zero value \<^verbatim>\<open>Entry{}\<close>.\<close>

definition Entry_zero :: Entry where
  "Entry_zero =
     \<lparr>entry_id = 0, dirty = False, comments = [], input = [], usage = [],
      translation = [], word = [], pronunciation = [], entry_definition = [], tags = []\<rparr>"

text \<open>\<^verbatim>\<open>type Entries [2200]Entry\<close>: a list that always has 2200 elements.\<close>

type_synonym Entries = "Entry list"

definition Entries_zero :: Entries where
  "Entries_zero = replicate 2200 Entry_zero"

text \<open>
  The message of an \<^verbatim>\<open>EntriesParseError\<close> is built by \<^verbatim>\<open>fmt.Sprintf\<close>; it is
  kept as the format chosen and the arguments passed, in the order of the call:
  \<^item> \<^verbatim>\<open>"line %d: entry ID too short: %q: found %d digits, expected %d digits"\<close>
  \<^item> \<^verbatim>\<open>"line %d: failed to parse entry ID: %q: %v"\<close>
  \<^item> \<^verbatim>\<open>"line %d: unexpected end of entry. found: %q, expected: %q"\<close>
\<close>

datatype reason =
    ReasonIDTooShort nat string nat nat
  | ReasonIDParse nat string NumError
  | ReasonUnexpectedEnd nat string string

text \<open>
  The errors \<^verbatim>\<open>NewEntriesFromFile\<close> returns: an \<^verbatim>\<open>EntriesParseError\<close> with its
  fields \<^verbatim>\<open>line\<close>, \<^verbatim>\<open>data\<close>, \<^verbatim>\<open>reason\<close>, or the wrapped read error
  \<^verbatim>\<open>"failed to read file: %v"\<close>.
\<close>

datatype error = EntriesParseError nat string reason | ReadError string

text \<open>
  What a call does: it panics (\<open>Inl\<close>), or it returns the storage and an error or
  \<open>nil\<close> (\<open>Inr\<close>). One turn of the loop either goes on with the storage and the
  record in flight, or leaves the function.
\<close>

type_synonym result = "go_panic + Entries \<times> error option"

datatype step = Next Entries Entry | Stop result

text \<open>The two statements that mark the record in flight dirty and append a note.\<close>

definition mark_dirty :: "Entry \<Rightarrow> string \<Rightarrow> Entry" where
  "mark_dirty current note = current\<lparr>dirty := True, comments := comments current @ [note]\<rparr>"

text \<open>\<^verbatim>\<open>if err := IsValidHTML(data); err != nil { ... }\<close>, shared by two cases.\<close>

definition check_html :: "Entries \<Rightarrow> Entry \<Rightarrow> string \<Rightarrow> step" where
  "check_html entries current data =
     (case IsValidHTML data of
        Inl p \<Rightarrow> Stop (Inl p)
      | Inr None \<Rightarrow> Next entries current
      | Inr (Some msg) \<Rightarrow> Next entries (mark_dirty current msg))"

text \<open>The body of the loop: the \<^verbatim>\<open>switch\<close> on \<^verbatim>\<open>(line - 1) % (EntryEnd + 1)\<close>.\<close>

definition scan_line :: "nat \<Rightarrow> Entries \<Rightarrow> Entry \<Rightarrow> string \<Rightarrow> step" where
  "scan_line line entries current data =
     (let role = (line - 1) mod (EntryEnd + 1) in
      if role = EntryID then
        (if length data < digitsOffset + 1
         then Stop (Inr (entries, Some (EntriesParseError line data
                (ReasonIDTooShort line data (length data) (digitsOffset + 1)))))
         else
           (case ParseInt (take (digitsOffset + 1) data) of
              Inl err \<Rightarrow>
                Stop (Inr (entries, Some (EntriesParseError line data
                  (ReasonIDParse line data err))))
            | Inr n \<Rightarrow>
                Next entries
                  (current\<lparr>entry_id := n,
                     dirty := (length data \<ge> dirtyOffset + 1 \<and>
                               data ! dirtyOffset = EntryDirtyMarker),
                     comments := (if length data \<ge> commentOffset + 1
                                  then [drop commentOffset data] else [])\<rparr>)))
      else if role = EntryUsage then
        (let current1 = current\<lparr>usage := data\<rparr>;
             current2 =
               (case FindStringSubmatch data of
                  None \<Rightarrow> mark_dirty current1 ''usage is missing cloze deletion.''
                | Some matches \<Rightarrow>
                    if length matches \<ge> 2 then current1\<lparr>input := matches ! 1\<rparr>
                    else mark_dirty current1 ''usage is missing cloze deletion.'')
         in check_html entries current2 data)
      else if role = EntryTranslation then
        (let current1 = current\<lparr>translation := data\<rparr>;
             current2 =
               (if FindStringSubmatch data = None
                then mark_dirty current1 ''translation is missing cloze deletion.''
                else current1)
         in check_html entries current2 data)
      else if role = EntryWord then Next entries (current\<lparr>word := data\<rparr>)
      else if role = EntryPronunciation then Next entries (current\<lparr>pronunciation := data\<rparr>)
      else if role = EntryDefinition then Next entries (current\<lparr>entry_definition := data\<rparr>)
      else if role = EntryTags then Next entries (current\<lparr>tags := Split data (CHR '','')\<rparr>)
      else
        (if data \<noteq> EntryDelimiter
         then Stop (Inr (entries, Some (EntriesParseError line data
                (ReasonUnexpectedEnd line data EntryDelimiter))))
         else
           let idx = entry_id current - 1 in
           if idx < 0 \<or> idx \<ge> int (length entries)
           then Stop (Inl (IndexOutOfRange idx (length entries)))
           else Next (entries[nat idx := current]) Entry_zero))"

text \<open>
  The \<^verbatim>\<open>bufio.Scanner\<close> is the list of the lines it yields, with the error
  \<^verbatim>\<open>scanner.Err()\<close> reports once they are exhausted: \<open>None\<close> at a clean end of
  input, an error when the reader fails or a line exceeds the scanner's buffer.
  \<open>scan_loop\<close> is the \<^verbatim>\<open>for\<close> loop, \<open>line\<close> counting from 1; the assignment to
  \<^verbatim>\<open>entries[current.id-1]\<close> panics when the index is outside the array.
\<close>

fun scan_loop :: "nat \<Rightarrow> Entries \<Rightarrow> Entry \<Rightarrow> string list \<Rightarrow> step" where
  "scan_loop line entries current [] = Next entries current"
| "scan_loop line entries current (data # rest) =
     (case scan_line line entries current data of
        Stop r \<Rightarrow> Stop r
      | Next entries' current' \<Rightarrow> scan_loop (line + 1) entries' current' rest)"

definition NewEntriesFromFile :: "string list \<Rightarrow> string option \<Rightarrow> result" where
  "NewEntriesFromFile lines scan_err =
     (case scan_loop 1 Entries_zero Entry_zero lines of
        Stop r \<Rightarrow> r
      | Next entries current \<Rightarrow>
          (case scan_err of
             Some err \<Rightarrow> Inr (entries, Some (ReadError err))
           | None \<Rightarrow> Inr (entries, None)))"

section \<open>Clean groups\<close>

text \<open>
  The vocabulary of the statement about well-formed input. A group is the list of its
  eight lines. It is clean when it ends with the delimiter, its ID line has 4 to 6
  bytes of which the first 4 parse to an id from 1 to 2200, the byte after them is not
  the dirty marker, and its prompt and translation lines hold a cloze deletion and pass
  the validator. \<open>clean_entry\<close> is the record the loop builds from such a group, and
  \<open>commit\<close> the assignment \<^verbatim>\<open>entries[current.id-1] = current\<close> for it.
\<close>

definition id_of_line :: "string \<Rightarrow> int" where
  "id_of_line l = (case ParseInt (take (digitsOffset + 1) l) of Inr n \<Rightarrow> n | Inl err \<Rightarrow> 0)"

definition cloze_of_line :: "string \<Rightarrow> string" where
  "cloze_of_line l = (case FindStringSubmatch l of Some matches \<Rightarrow> matches ! 1 | None \<Rightarrow> [])"

definition clean_group :: "string list \<Rightarrow> bool" where
  "clean_group g \<longleftrightarrow>
     length g = EntryEnd + 1 \<and> g ! EntryEnd = EntryDelimiter \<and>
     digitsOffset + 1 \<le> length (g ! EntryID) \<and> length (g ! EntryID) \<le> commentOffset \<and>
     \<not> (dirtyOffset + 1 \<le> length (g ! EntryID) \<and> g ! EntryID ! dirtyOffset = EntryDirtyMarker) \<and>
     (case ParseInt (take (digitsOffset + 1) (g ! EntryID)) of
        Inr n \<Rightarrow> 1 \<le> n \<and> n \<le> 2200
      | Inl err \<Rightarrow> False) \<and>
     FindStringSubmatch (g ! EntryUsage) \<noteq> None \<and> IsValidHTML (g ! EntryUsage) = Inr None \<and>
     FindStringSubmatch (g ! EntryTranslation) \<noteq> None \<and>
     IsValidHTML (g ! EntryTranslation) = Inr None"

definition clean_entry :: "string list \<Rightarrow> Entry" where
  "clean_entry g =
     \<lparr>entry_id = id_of_line (g ! EntryID), dirty = False, comments = [],
      input = cloze_of_line (g ! EntryUsage), usage = g ! EntryUsage,
      translation = g ! EntryTranslation, word = g ! EntryWord,
      pronunciation = g ! EntryPronunciation, entry_definition = g ! EntryDefinition,
      tags = Split (g ! EntryTags) (CHR '','')\<rparr>"

definition commit :: "Entries \<Rightarrow> string list \<Rightarrow> Entries" where
  "commit entries g = entries[nat (id_of_line (g ! EntryID) - 1) := clean_entry g]"

section \<open>The loop body, role by role\<close>

text \<open>
  The line numbered \<open>Suc k\<close> has the role \<open>k mod 8\<close>. Each lemma is the branch of the
  \<^verbatim>\<open>switch\<close> for one role, with the constants unfolded.
\<close>

lemmas role_defs = EntryID_def EntryUsage_def EntryTranslation_def EntryWord_def
  EntryPronunciation_def EntryDefinition_def EntryTags_def EntryEnd_def

lemmas offset_defs = digitsOffset_def dirtyOffset_def commentOffset_def
  EntryDirtyMarker_def EntryDelimiter_def

lemma scan_line_ID:
  "k mod 8 = 0 \<Longrightarrow>
   scan_line (Suc k) es cur dat =
     (if length dat < 4
      then Stop (Inr (es, Some (EntriesParseError (Suc k) dat
             (ReasonIDTooShort (Suc k) dat (length dat) 4))))
      else (case ParseInt (take 4 dat) of
              Inl err \<Rightarrow> Stop (Inr (es, Some (EntriesParseError (Suc k) dat
                            (ReasonIDParse (Suc k) dat err))))
            | Inr n \<Rightarrow>
                Next es (cur\<lparr>entry_id := n,
                           dirty := (5 \<le> length dat \<and> dat ! 4 = CHR ''*''),
                           comments := (if 7 \<le> length dat then [drop 6 dat] else [])\<rparr>)))"
  by (simp add: scan_line_def role_defs offset_defs split: sum.splits)

lemma scan_line_Usage:
  "k mod 8 = 1 \<Longrightarrow>
   scan_line (Suc k) es cur dat =
     check_html es
       (case FindStringSubmatch dat of
          None \<Rightarrow> mark_dirty (cur\<lparr>usage := dat\<rparr>) ''usage is missing cloze deletion.''
        | Some matches \<Rightarrow>
            if 2 \<le> length matches then cur\<lparr>usage := dat, input := matches ! 1\<rparr>
            else mark_dirty (cur\<lparr>usage := dat\<rparr>) ''usage is missing cloze deletion.'')
       dat"
  by (simp add: scan_line_def role_defs Let_def)

lemma scan_line_Translation:
  "k mod 8 = 2 \<Longrightarrow>
   scan_line (Suc k) es cur dat =
     check_html es
       (if FindStringSubmatch dat = None
        then mark_dirty (cur\<lparr>translation := dat\<rparr>) ''translation is missing cloze deletion.''
        else cur\<lparr>translation := dat\<rparr>)
       dat"
  by (simp add: scan_line_def role_defs Let_def)

lemma scan_line_Word:
  "k mod 8 = 3 \<Longrightarrow> scan_line (Suc k) es cur dat = Next es (cur\<lparr>word := dat\<rparr>)"
  by (simp add: scan_line_def role_defs)

lemma scan_line_Pronunciation:
  "k mod 8 = 4 \<Longrightarrow> scan_line (Suc k) es cur dat = Next es (cur\<lparr>pronunciation := dat\<rparr>)"
  by (simp add: scan_line_def role_defs)

lemma scan_line_Definition:
  "k mod 8 = 5 \<Longrightarrow> scan_line (Suc k) es cur dat = Next es (cur\<lparr>entry_definition := dat\<rparr>)"
  by (simp add: scan_line_def role_defs)

lemma scan_line_Tags:
  "k mod 8 = 6 \<Longrightarrow>
   scan_line (Suc k) es cur dat = Next es (cur\<lparr>tags := Split dat (CHR '','')\<rparr>)"
  by (simp add: scan_line_def role_defs)

lemma scan_line_End:
  "k mod 8 = 7 \<Longrightarrow>
   scan_line (Suc k) es cur dat =
     (if dat \<noteq> ''---''
      then Stop (Inr (es, Some (EntriesParseError (Suc k) dat
             (ReasonUnexpectedEnd (Suc k) dat ''---''))))
      else if entry_id cur - 1 < 0 \<or> int (length es) \<le> entry_id cur - 1
      then Stop (Inl (IndexOutOfRange (entry_id cur - 1) (length es)))
      else Next (es[nat (entry_id cur - 1) := cur]) Entry_zero)"
  by (simp add: scan_line_def role_defs offset_defs Let_def)

lemma scan_loop_append:
  "scan_loop line es cur (xs @ ys) =
     (case scan_loop line es cur xs of
        Stop r \<Rightarrow> Stop r
      | Next es' cur' \<Rightarrow> scan_loop (line + length xs) es' cur' ys)"
  by (induction xs arbitrary: line es cur) (auto split: step.splits)

lemma check_html_cases:
  "check_html es cur dat = Stop r \<Longrightarrow> \<exists>p. r = Inl p \<and> IsValidHTML dat = Inl p"
  "check_html es cur dat = Next es' cur' \<Longrightarrow> es' = es \<and> (\<exists>v. IsValidHTML dat = Inr v)"
  by (auto simp: check_html_def split: sum.splits option.splits)

section \<open>The validator on the inputs of the test file\<close>

text \<open>
  C9. The validator rejects both inputs of \<^verbatim>\<open>TestInvalidHTML\<close>: on
  \<^verbatim>\<open><p>1 < 5</p>\<close> the text \<^verbatim>\<open>< 5</p>\<close> is read as one more opening tag, so two
  tags are left open at the end; on \<^verbatim>\<open><p>1 <> 5</p>\<close> the tag \<^verbatim>\<open><>\<close> has an
  empty name. Both calls return an error, not \<open>nil\<close>.
\<close>

theorem IsValidHTML_rejects_test_inputs:
  "IsValidHTML ''<p>1 < 5</p>'' = Inr (Some ''not all tags closed: [p 5</p]'') \<and>
   IsValidHTML ''<p>1 <> 5</p>'' = Inr (Some ''empty tag found'')"
  by code_simp

text \<open>
  C2. A closing tag met while no tag is open: the source reads
  \<^verbatim>\<open>tags[len(tags)-1]\<close> before it looks at the length of \<^verbatim>\<open>tags\<close>, so on
  \<^verbatim>\<open></b>\<close> the call panics with an index out of range; it returns no mismatch
  error.
\<close>

theorem IsValidHTML_close_tag_on_empty_stack_panics:
  "IsValidHTML ''</b>'' = Inl (IndexOutOfRange (- 1) 0)"
  by code_simp

section \<open>The ID line\<close>

text \<open>
  C3 (as amended). On an ID line of at least 4 bytes whose first 4 bytes parse as an
  integer, the loop goes on, the record in flight takes the parsed id, and it starts
  dirty if and only if the line has a byte at index 4 (the 5th) and that byte is
  \<^verbatim>\<open>*\<close>. The byte at index 3 is the last of the four the id is parsed from.
\<close>

theorem ID_line_dirty_marker_at_index_4:
  assumes "0 < line" and "(line - 1) mod (EntryEnd + 1) = EntryID"
    and "4 \<le> length dat" and "ParseInt (take 4 dat) = Inr n"
  shows "\<exists>current'. scan_line line entries current dat = Next entries current' \<and>
           entry_id current' = n \<and>
           (dirty current' \<longleftrightarrow> 5 \<le> length dat \<and> dat ! 4 = CHR ''*'')"
proof -
  from assms(2) have "(line - 1) mod 8 = 0"
    by (simp add: role_defs)
  from scan_line_ID [OF this, of entries current dat] assms(1,3,4)
  show ?thesis by simp
qed

theorem ID_line_dirty_marker_at_index_4_witness:
  "\<exists>current'. scan_line 1 Entries_zero Entry_zero ''0001*'' = Next Entries_zero current' \<and>
     entry_id current' = 1 \<and> dirty current'"
proof -
  have p: "ParseInt (take 4 ''0001*'') = Inr 1"
    by code_simp
  show ?thesis
    using ID_line_dirty_marker_at_index_4 [of 1 "''0001*''" 1 Entries_zero Entry_zero] p
    by (simp add: role_defs)
qed

text \<open>
  The claim as written fails on the ID line \<^verbatim>\<open>0001*\<close>: its first 4 bytes parse
  as 1, its byte at index 3 is \<^verbatim>\<open>1\<close>, not the marker, and the record starts dirty.
\<close>

theorem ID_line_dirty_marker_not_at_index_3:
  "4 \<le> length ''0001*'' \<and> ParseInt (take 4 ''0001*'') = Inr 1 \<and>
   ''0001*'' ! 3 \<noteq> CHR ''*'' \<and>
   scan_line 1 Entries_zero Entry_zero ''0001*'' =
     Next Entries_zero (Entry_zero\<lparr>entry_id := 1, dirty := True, comments := []\<rparr>)"
proof -
  have p: "ParseInt (take 4 ''0001*'') = Inr 1"
    by code_simp
  show ?thesis
    using scan_line_ID [of 0 Entries_zero Entry_zero "''0001*''"] p by simp
qed

text \<open>
  C4 (as amended). On an ID line of at least 4 bytes whose first 4 bytes parse as an
  integer, the comments of the record in flight start as the one string made of the
  bytes from offset 6 onward when the line has at least 7 bytes, and empty when it has
  6 bytes or fewer. The bytes at index 4 and 5 (the marker and its separator) are never
  part of the comment.
\<close>

theorem ID_line_comment_from_offset_6:
  assumes "0 < line" and "(line - 1) mod (EntryEnd + 1) = EntryID"
    and "4 \<le> length dat" and "ParseInt (take 4 dat) = Inr n"
  shows "\<exists>current'. scan_line line entries current dat = Next entries current' \<and>
           comments current' = (if 7 \<le> length dat then [drop 6 dat] else [])"
proof -
  from assms(2) have "(line - 1) mod 8 = 0"
    by (simp add: role_defs)
  from scan_line_ID [OF this, of entries current dat] assms(1,3,4)
  show ?thesis by simp
qed

theorem ID_line_comment_from_offset_6_witness:
  "\<exists>current'. scan_line 1 Entries_zero Entry_zero ''0001* check'' = Next Entries_zero current' \<and>
     comments current' = [''check'']"
proof -
  have p: "ParseInt (take 4 ''0001* check'') = Inr 1"
    by code_simp
  show ?thesis
    using ID_line_comment_from_offset_6 [of 1 "''0001* check''" 1 Entries_zero Entry_zero] p
    by (simp add: role_defs)
qed

text \<open>
  The claim as written fails on the ID line \<^verbatim>\<open>0001 hello\<close>: bytes remain after
  index 4, the substring from offset 5 is \<^verbatim>\<open>hello\<close>, and the comment seeded is
  \<^verbatim>\<open>ello\<close>.
\<close>

theorem ID_line_comment_not_from_offset_5:
  "5 < length ''0001 hello'' \<and> ParseInt (take 4 ''0001 hello'') = Inr 1 \<and>
   drop 5 ''0001 hello'' = ''hello'' \<and>
   scan_line 1 Entries_zero Entry_zero ''0001 hello'' =
     Next Entries_zero (Entry_zero\<lparr>entry_id := 1, dirty := False, comments := [''ello'']\<rparr>)"
proof -
  have p: "ParseInt (take 4 ''0001 hello'') = Inr 1"
    by code_simp
  show ?thesis
    using scan_line_ID [of 0 Entries_zero Entry_zero "''0001 hello''"] p by simp
qed

section \<open>Stray closing brackets\<close>

lemma IndexByte_None_iff: "IndexByte s c = None \<longleftrightarrow> c \<notin> set s"
  by (induction s) auto

lemma IndexByte_Some:
  "IndexByte s c = Some i \<Longrightarrow> i < length s \<and> s ! i = c \<and> c \<notin> set (take i s)"
  by (induction s arbitrary: i) (auto split: if_splits)

lemma IndexByte_append:
  "IndexByte (xs @ ys) c =
     (case IndexByte xs c of
        Some i \<Rightarrow> Some i
      | None \<Rightarrow> map_option (\<lambda>k. k + length xs) (IndexByte ys c))"
  by (induction xs) (auto split: option.splits simp: option.map_comp comp_def option.map_ident)

lemma IndexByte_first:
  "c \<notin> set xs \<Longrightarrow> IndexByte (xs @ c # ys) c = Some (length xs)"
  by (induction xs) auto

text \<open>
  One turn of the loop, in two steps: finding the next tag from \<open>offset\<close>, and pushing
  or popping its name. The loop is these two steps repeated.
\<close>

lemma IsValidHTML_loop_turn:
  "IsValidHTML_loop s offset ts =
     (case locate_tag s offset of
        NoTag \<Rightarrow> tags_left ts
      | Stray \<Rightarrow> Inr (Some ''found closing bracket before an opening bracket'')
      | NoClose \<Rightarrow> Inr (Some ''found opening bracket but no closing bracket'')
      | Tag start end' \<Rightarrow>
          (case apply_tag s ts start end' of
             Return r \<Rightarrow> r
           | Continue offset' ts' \<Rightarrow> IsValidHTML_loop s offset' ts'))"
  by (subst IsValidHTML_loop.simps)
    (simp add: locate_tag_def apply_tag_def Let_def split: option.splits)

lemma apply_tag_Continue:
  "apply_tag s ts start end' = Continue offset' ts' \<Longrightarrow> offset' = end' + 1"
  by (auto simp: apply_tag_def Let_def split: if_splits)

lemma apply_tag_Return:
  "apply_tag s ts start end' = Return r \<Longrightarrow> r \<noteq> tags_left x"
  by (auto simp: apply_tag_def tags_left_def Let_def split: if_splits)

lemma apply_tag_append:
  "end' \<le> length p \<Longrightarrow> apply_tag (p @ t) ts start end' = apply_tag p ts start end'"
  by (simp add: apply_tag_def slice_def)

lemma locate_tag_bounds:
  assumes "locate_tag s offset = Tag start end'"
  shows "offset \<le> start \<and> start < end' \<and> end' < length s"
proof -
  from assms obtain i e where i: "IndexByte (drop offset s) (CHR ''<'') = Some i"
    and e: "IndexByte (drop (i + offset) s) (CHR ''>'') = Some e"
    and eq: "start = i + offset" "end' = e + (i + offset)"
    by (auto simp: locate_tag_def split: if_splits option.splits)
  from IndexByte_Some [OF i] have "i + offset < length s" "s ! (i + offset) = CHR ''<''"
    by (auto simp: add.commute)
  moreover from IndexByte_Some [OF e] have "e + (i + offset) < length s"
    "s ! (i + offset + e) = CHR ''>''"
    by (auto simp: add.commute)
  ultimately have "e \<noteq> 0"
    by (intro notI) simp
  with eq \<open>e + (i + offset) < length s\<close> show ?thesis
    by simp
qed

lemma locate_tag_append_Tag:
  assumes "locate_tag p offset = Tag start end'"
  shows "locate_tag (p @ t) offset = Tag start end'"
proof -
  from assms obtain i e where off: "offset < length p"
    and i: "IndexByte (drop offset p) (CHR ''<'') = Some i"
    and ns: "\<not> (0 < i \<and> IndexByte (slice p offset (i + offset)) (CHR ''>'') \<noteq> None)"
    and e: "IndexByte (drop (i + offset) p) (CHR ''>'') = Some e"
    and eq: "start = i + offset" "end' = e + (i + offset)"
    by (auto simp: locate_tag_def split: if_splits option.splits)
  from IndexByte_Some [OF i] have b: "i + offset < length p"
    by auto
  then have sl: "slice (p @ t) offset (i + offset) = slice p offset (i + offset)"
    by (simp add: slice_def)
  from off i e b ns show ?thesis
    by (simp add: locate_tag_def IndexByte_append sl eq)
qed

lemma locate_tag_prefix_Tag:
  assumes "locate_tag (p @ t) offset = Tag start end'" and "end' < length p"
  shows "locate_tag p offset = Tag start end'"
proof -
  from locate_tag_bounds [OF assms(1)] assms(2)
  have b: "offset \<le> start" "start < end'" "offset < length p" "start < length p"
    by auto
  from assms(1) obtain i e where
    i: "IndexByte (drop offset (p @ t)) (CHR ''<'') = Some i"
    and ns: "\<not> (0 < i \<and> IndexByte (slice (p @ t) offset (i + offset)) (CHR ''>'') \<noteq> None)"
    and e: "IndexByte (drop (i + offset) (p @ t)) (CHR ''>'') = Some e"
    and eq: "start = i + offset" "end' = e + (i + offset)"
    by (auto simp: locate_tag_def split: if_splits option.splits)
  from b eq have sl: "slice (p @ t) offset (i + offset) = slice p offset (i + offset)"
    by (simp add: slice_def)
  have i': "IndexByte (drop offset p) (CHR ''<'') = Some i"
  proof (cases "IndexByte (drop offset p) (CHR ''<'')")
    case None
    with i b obtain k where "i = k + (length p - offset)"
      by (auto simp: IndexByte_append)
    with b eq show ?thesis by simp
  next
    case (Some k)
    with i b show ?thesis
      by (simp add: IndexByte_append)
  qed
  have e': "IndexByte (drop (i + offset) p) (CHR ''>'') = Some e"
  proof (cases "IndexByte (drop (i + offset) p) (CHR ''>'')")
    case None
    with e b eq obtain k where "e = k + (length p - (i + offset))"
      by (auto simp: IndexByte_append)
    with b eq assms(2) show ?thesis by simp
  next
    case (Some k)
    with e b eq show ?thesis
      by (simp add: IndexByte_append)
  qed
  from b i' e' ns show ?thesis
    by (simp add: locate_tag_def sl eq)
qed

lemma locate_tag_append_NoTag:
  assumes "locate_tag p offset = NoTag" and "CHR ''<'' \<notin> set t"
  shows "locate_tag (p @ t) offset = NoTag"
proof -
  from assms(1) have "\<not> offset < length p \<or> IndexByte (drop offset p) (CHR ''<'') = None"
    by (auto simp: locate_tag_def split: if_splits option.splits)
  then have "CHR ''<'' \<notin> set (drop offset p)"
    by (auto simp: IndexByte_None_iff)
  with assms(2) have "IndexByte (drop offset (p @ t)) (CHR ''<'') = None"
    by (auto simp: IndexByte_None_iff dest: in_set_dropD)
  then show ?thesis
    by (simp add: locate_tag_def)
qed

lemma IsValidHTML_no_open_bracket: "CHR ''<'' \<notin> set s \<Longrightarrow> IsValidHTML s = Inr None"
proof -
  assume "CHR ''<'' \<notin> set s"
  then have "IndexByte (drop 0 s) (CHR ''<'') = None"
    by (simp add: IndexByte_None_iff)
  then show ?thesis
    unfolding IsValidHTML_def
    by (subst IsValidHTML_loop.simps) (simp add: tags_left_def)
qed

lemma locate_tag_append_Stray:
  assumes "locate_tag p offset = NoTag" and "offset \<le> length p"
    and "CHR ''<'' \<notin> set u" and "CHR ''>'' \<in> set u"
  shows "locate_tag (p @ u @ CHR ''<'' # w) offset = Stray"
proof -
  from assms(1) have "\<not> offset < length p \<or> IndexByte (drop offset p) (CHR ''<'') = None"
    by (auto simp: locate_tag_def split: if_splits option.splits)
  then have "CHR ''<'' \<notin> set (drop offset p)"
    by (auto simp: IndexByte_None_iff)
  with assms(3) have no: "CHR ''<'' \<notin> set (drop offset p @ u)"
    by simp
  let ?i = "length (drop offset p @ u)"
  from assms(2) have d: "drop offset (p @ u @ CHR ''<'' # w) = (drop offset p @ u) @ CHR ''<'' # w"
    by simp
  have i: "IndexByte (drop offset (p @ u @ CHR ''<'' # w)) (CHR ''<'') = Some ?i"
    unfolding d using no by (rule IndexByte_first)
  from assms(4) have pos: "0 < ?i"
    by (cases u) simp_all
  have "slice (p @ u @ CHR ''<'' # w) offset (?i + offset) = drop offset p @ u"
    unfolding slice_def d by simp
  with assms(4) have "IndexByte (slice (p @ u @ CHR ''<'' # w) offset (?i + offset)) (CHR ''>'') \<noteq> None"
    by (simp add: IndexByte_None_iff)
  moreover from assms(2) have "offset < length (p @ u @ CHR ''<'' # w)"
    by simp
  ultimately show ?thesis
    using i pos by (simp add: locate_tag_def del: length_append)
qed

lemma locate_tag_Stray:
  assumes "locate_tag s offset = Stray"
  shows "\<exists>i j. offset \<le> i \<and> i < j \<and> j < length s \<and> s ! i = CHR ''>'' \<and> s ! j = CHR ''<'' \<and>
           locate_tag (take i s) offset = NoTag"
proof -
  from assms obtain k m where off: "offset < length s"
    and k: "IndexByte (drop offset s) (CHR ''<'') = Some k"
    and m: "IndexByte (slice s offset (k + offset)) (CHR ''>'') = Some m"
    by (auto simp: locate_tag_def split: if_splits option.splits)
  from IndexByte_Some [OF k] have k': "k + offset < length s" "s ! (k + offset) = CHR ''<''"
    "CHR ''<'' \<notin> set (take k (drop offset s))"
    by (auto simp: add.commute)
  from IndexByte_Some [OF m] k' have m': "m < k" "s ! (m + offset) = CHR ''>''"
    by (auto simp: slice_def add.commute)
  have "set (take m (drop offset s)) \<subseteq> set (take k (drop offset s))"
    using m'(1) by (intro set_take_subset_set_take) simp
  with k'(3) have "CHR ''<'' \<notin> set (take m (drop offset s))"
    by auto
  moreover have "drop offset (take (m + offset) s) = take m (drop offset s)"
    by (simp add: drop_take)
  ultimately have "IndexByte (drop offset (take (m + offset) s)) (CHR ''<'') = None"
    by (simp add: IndexByte_None_iff)
  then have "locate_tag (take (m + offset) s) offset = NoTag"
    by (simp add: locate_tag_def)
  with k' m' show ?thesis
    by (intro exI [of _ "m + offset"] exI [of _ "k + offset"]) simp
qed

lemma not_stray_tags_left:
  "tags_left x \<noteq> Inr (Some ''found closing bracket before an opening bracket'')"
  "tags_left x \<noteq> Inr (Some ''found opening bracket but no closing bracket'')"
  by (simp_all add: tags_left_def)

lemma apply_tag_Return_not_stray:
  "apply_tag s ts start end' = Return r \<Longrightarrow>
   r \<noteq> Inr (Some ''found closing bracket before an opening bracket'')"
  by (auto simp: apply_tag_def Let_def split: if_splits)

text \<open>
  Text without \<^verbatim>\<open><\<close> appended to a string that is scanned to its end: the verdict is
  the same.
\<close>

lemma IsValidHTML_loop_append_text:
  assumes "IsValidHTML_loop p offset ts = tags_left x" and "CHR ''<'' \<notin> set t"
  shows "IsValidHTML_loop (p @ t) offset ts = tags_left x"
  using assms(1)
proof (induction "length p - offset" arbitrary: offset ts rule: less_induct)
  case less
  show ?case
  proof (cases "locate_tag p offset")
    case NoTag
    from locate_tag_append_NoTag [OF this assms(2)] NoTag less.prems show ?thesis
      by (simp add: IsValidHTML_loop_turn [of p] IsValidHTML_loop_turn [of "p @ t"])
  next
    case Stray
    with less.prems not_stray_tags_left [of x] show ?thesis
      by (simp add: IsValidHTML_loop_turn [of p])
  next
    case NoClose
    with less.prems not_stray_tags_left [of x] show ?thesis
      by (simp add: IsValidHTML_loop_turn [of p])
  next
    case (Tag start end')
    note b = locate_tag_bounds [OF Tag]
    show ?thesis
    proof (cases "apply_tag p ts start end'")
      case (Return r)
      with Tag less.prems apply_tag_Return [OF Return, of x] show ?thesis
        by (simp add: IsValidHTML_loop_turn [of p])
    next
      case (Continue offset' ts')
      from apply_tag_Continue [OF this] b have o: "length p - offset' < length p - offset"
        by linarith
      from Tag Continue less.prems have "IsValidHTML_loop p offset' ts' = tags_left x"
        by (simp add: IsValidHTML_loop_turn [of p offset])
      from less.hyps [OF o this] locate_tag_append_Tag [OF Tag, of t] Continue b
      show ?thesis
        by (simp add: IsValidHTML_loop_turn [of "p @ t" offset] apply_tag_append)
    qed
  qed
qed

text \<open>
  Text with a \<^verbatim>\<open>>\<close> and then a \<^verbatim>\<open><\<close> appended to a string that is scanned to its
  end: the stray bracket is reported.
\<close>

lemma IsValidHTML_loop_append_stray:
  assumes "IsValidHTML_loop p offset ts = tags_left x" and "offset \<le> length p"
    and "CHR ''<'' \<notin> set u" and "CHR ''>'' \<in> set u"
  shows "IsValidHTML_loop (p @ u @ CHR ''<'' # w) offset ts =
           Inr (Some ''found closing bracket before an opening bracket'')"
  using assms(1,2)
proof (induction "length p - offset" arbitrary: offset ts rule: less_induct)
  case less
  let ?s = "p @ u @ CHR ''<'' # w"
  show ?case
  proof (cases "locate_tag p offset")
    case NoTag
    from locate_tag_append_Stray [OF this less.prems(2) assms(3,4), of w] show ?thesis
      by (simp add: IsValidHTML_loop_turn [of ?s])
  next
    case Stray
    with less.prems not_stray_tags_left [of x] show ?thesis
      by (simp add: IsValidHTML_loop_turn [of p])
  next
    case NoClose
    with less.prems not_stray_tags_left [of x] show ?thesis
      by (simp add: IsValidHTML_loop_turn [of p])
  next
    case (Tag start end')
    note b = locate_tag_bounds [OF Tag]
    show ?thesis
    proof (cases "apply_tag p ts start end'")
      case (Return r)
      with Tag less.prems apply_tag_Return [OF Return, of x] show ?thesis
        by (simp add: IsValidHTML_loop_turn [of p])
    next
      case (Continue offset' ts')
      from apply_tag_Continue [OF this] b
      have o: "length p - offset' < length p - offset" "offset' \<le> length p"
        by linarith+
      from Tag Continue less.prems have "IsValidHTML_loop p offset' ts' = tags_left x"
        by (simp add: IsValidHTML_loop_turn [of p offset])
      from less.hyps [OF o(1) this o(2)]
        locate_tag_append_Tag [OF Tag, of "u @ CHR ''<'' # w"] Continue b
      show ?thesis
        by (simp add: IsValidHTML_loop_turn [of ?s offset] apply_tag_append)
    qed
  qed
qed

text \<open>
  Where the stray bracket is reported, the string before that bracket is scanned to its
  end.
\<close>

lemma IsValidHTML_loop_stray_prefix:
  assumes "IsValidHTML_loop s offset ts =
             Inr (Some ''found closing bracket before an opening bracket'')"
  shows "\<exists>i j ts'. offset \<le> i \<and> i < j \<and> j < length s \<and> s ! i = CHR ''>'' \<and>
           s ! j = CHR ''<'' \<and> IsValidHTML_loop (take i s) offset ts = tags_left ts'"
  using assms
proof (induction "length s - offset" arbitrary: offset ts rule: less_induct)
  case less
  show ?case
  proof (cases "locate_tag s offset")
    case NoTag
    with less.prems not_stray_tags_left [of ts] show ?thesis
      by (simp add: IsValidHTML_loop_turn [of s])
  next
    case NoClose
    with less.prems show ?thesis
      by (simp add: IsValidHTML_loop_turn [of s])
  next
    case Stray
    from locate_tag_Stray [OF this] obtain i j where ij:
      "offset \<le> i" "i < j" "j < length s" "s ! i = CHR ''>''" "s ! j = CHR ''<''"
      "locate_tag (take i s) offset = NoTag"
      by blast
    then have "IsValidHTML_loop (take i s) offset ts = tags_left ts"
      by (simp add: IsValidHTML_loop_turn [of "take i s"])
    with ij show ?thesis by blast
  next
    case (Tag start end')
    note b = locate_tag_bounds [OF Tag]
    show ?thesis
    proof (cases "apply_tag s ts start end'")
      case (Return r)
      with Tag less.prems apply_tag_Return_not_stray [OF Return] show ?thesis
        by (simp add: IsValidHTML_loop_turn [of s])
    next
      case (Continue offset' ts1)
      from apply_tag_Continue [OF this] b
      have o: "length s - offset' < length s - offset" "offset' = end' + 1"
        by linarith+
      from Tag Continue less.prems
      have "IsValidHTML_loop s offset' ts1 =
              Inr (Some ''found closing bracket before an opening bracket'')"
        by (simp add: IsValidHTML_loop_turn [of s offset])
      from less.hyps [OF o(1) this] obtain i j ts' where ij:
        "offset' \<le> i" "i < j" "j < length s" "s ! i = CHR ''>''" "s ! j = CHR ''<''"
        "IsValidHTML_loop (take i s) offset' ts1 = tags_left ts'"
        by blast
      from ij o have len: "end' < length (take i s)"
        by simp
      have s: "take i s @ drop i s = s"
        by simp
      from Tag have "locate_tag (take i s @ drop i s) offset = Tag start end'"
        by simp
      from locate_tag_prefix_Tag [OF this len]
      have 1: "locate_tag (take i s) offset = Tag start end'" .
      from len have "apply_tag (take i s @ drop i s) ts start end' =
                       apply_tag (take i s) ts start end'"
        by (intro apply_tag_append) simp
      with Continue have 2: "apply_tag (take i s) ts start end' = Continue offset' ts1"
        by simp
      from 1 2 ij(6) have "IsValidHTML_loop (take i s) offset ts = tags_left ts'"
        by (simp add: IsValidHTML_loop_turn [of "take i s" offset])
      with ij b o show ?thesis
        by (intro exI [of _ i] exI [of _ j] exI [of _ ts']) simp
    qed
  qed
qed

text \<open>
  C10 (as amended). A string with no \<^verbatim>\<open><\<close> at all is accepted. More generally,
  take a \<^verbatim>\<open>>\<close> with no \<^verbatim>\<open><\<close> at or after it: when the validator accepts the
  part of the string before that \<^verbatim>\<open>>\<close>, it accepts the string. And the error "found closing bracket before an opening bracket" is returned
  exactly when a \<^verbatim>\<open><\<close> stands later in the string than a stray \<^verbatim>\<open>>\<close>: one
  before which the string is scanned to its end with no failure inside the loop, so
  that the part before it is accepted or only leaves tags open.
\<close>

theorem closing_bracket_without_later_open:
  "(CHR ''<'' \<notin> set s \<longrightarrow> IsValidHTML s = Inr None) \<and>
   (i < length s \<and> s ! i = CHR ''>'' \<and> CHR ''<'' \<notin> set (drop i s) \<and>
    IsValidHTML (take i s) = Inr None \<longrightarrow> IsValidHTML s = Inr None) \<and>
   (IsValidHTML s = Inr (Some ''found closing bracket before an opening bracket'') \<longleftrightarrow>
      (\<exists>i j ts. i < j \<and> j < length s \<and> s ! i = CHR ''>'' \<and> s ! j = CHR ''<'' \<and>
         IsValidHTML (take i s) = tags_left ts))"
proof (intro conjI impI iffI)
  assume "CHR ''<'' \<notin> set s"
  then show "IsValidHTML s = Inr None"
    by (rule IsValidHTML_no_open_bracket)
next
  assume a: "i < length s \<and> s ! i = CHR ''>'' \<and> CHR ''<'' \<notin> set (drop i s) \<and>
             IsValidHTML (take i s) = Inr None"
  then have "IsValidHTML_loop (take i s) 0 [] = tags_left []"
    by (simp add: IsValidHTML_def tags_left_def)
  from IsValidHTML_loop_append_text [OF this, of "drop i s"] a
  show "IsValidHTML s = Inr None"
    by (simp add: IsValidHTML_def tags_left_def)
next
  assume "IsValidHTML s = Inr (Some ''found closing bracket before an opening bracket'')"
  from IsValidHTML_loop_stray_prefix [OF this [unfolded IsValidHTML_def]]
  show "\<exists>i j ts. i < j \<and> j < length s \<and> s ! i = CHR ''>'' \<and> s ! j = CHR ''<'' \<and>
          IsValidHTML (take i s) = tags_left ts"
    unfolding IsValidHTML_def by blast
next
  assume "\<exists>i j ts. i < j \<and> j < length s \<and> s ! i = CHR ''>'' \<and> s ! j = CHR ''<'' \<and>
            IsValidHTML (take i s) = tags_left ts"
  then obtain i j ts where ij: "i < j" "j < length s" "s ! i = CHR ''>''" "s ! j = CHR ''<''"
    and p: "IsValidHTML_loop (take i s) 0 [] = tags_left ts"
    unfolding IsValidHTML_def by blast
  let ?t = "drop i s"
  let ?u = "takeWhile (\<lambda>c. c \<noteq> CHR ''<'') ?t"
  let ?r = "dropWhile (\<lambda>c. c \<noteq> CHR ''<'') ?t"
  from ij have "?t ! (j - i) = s ! j" "j - i < length ?t"
    by simp_all
  then have "s ! j \<in> set ?t"
    by (metis nth_mem)
  with ij have "?r \<noteq> []"
    by (auto simp: dropWhile_eq_Nil_conv)
  then obtain w where r: "?r = CHR ''<'' # w"
    using hd_dropWhile [of "\<lambda>c. c \<noteq> CHR ''<''" ?t] by (cases ?r) auto
  from ij have "i < length s"
    by simp
  then have "?t = s ! i # drop (Suc i) s"
    by (simp add: Cons_nth_drop_Suc)
  with ij have "CHR ''>'' \<in> set ?u"
    by simp
  moreover have "CHR ''<'' \<notin> set ?u"
    by (auto dest: set_takeWhileD)
  moreover have "s = take i s @ ?u @ CHR ''<'' # w"
  proof -
    have "?u @ CHR ''<'' # w = ?t"
      unfolding r [symmetric] by simp
    then show ?thesis by simp
  qed
  ultimately show "IsValidHTML s = Inr (Some ''found closing bracket before an opening bracket'')"
    using IsValidHTML_loop_append_stray [OF p, of ?u w]
    by (simp add: IsValidHTML_def)
qed

theorem closing_bracket_without_later_open_witness:
  "IsValidHTML ''1 > 0'' = Inr None \<and>
   IsValidHTML ''<b>x</b> 1 > 0'' = Inr None \<and>
   IsValidHTML ''a > <b>'' = Inr (Some ''found closing bracket before an opening bracket'') \<and>
   (\<exists>i j ts. i < j \<and> j < length ''x> <'' \<and> ''x> <'' ! i = CHR ''>'' \<and> ''x> <'' ! j = CHR ''<'' \<and>
      IsValidHTML (take i ''x> <'') = tags_left ts)"
proof -
  have v: "IsValidHTML ''<b>x</b> 1 '' = Inr None" "IsValidHTML ''a '' = Inr None"
    by code_simp+
  have h: "IsValidHTML ''x> <'' = Inr (Some ''found closing bracket before an opening bracket'')"
    by code_simp
  have a: "IsValidHTML ''<b>x</b> 1 > 0'' = Inr None"
    using closing_bracket_without_later_open [of "''<b>x</b> 1 > 0''" 11] v(1)
    by simp
  have "\<exists>i j ts. i < j \<and> j < length ''a > <b>'' \<and> ''a > <b>'' ! i = CHR ''>'' \<and>
          ''a > <b>'' ! j = CHR ''<'' \<and> IsValidHTML (take i ''a > <b>'') = tags_left ts"
    by (intro exI [of _ 2] exI [of _ 4] exI [of _ "[]"]) (simp add: v(2) tags_left_def)
  with closing_bracket_without_later_open [of "''a > <b>''" 0]
  have b: "IsValidHTML ''a > <b>'' =
             Inr (Some ''found closing bracket before an opening bracket'')"
    by blast
  from closing_bracket_without_later_open [of "''x> <''" 0] h
  have c: "\<exists>i j ts. i < j \<and> j < length ''x> <'' \<and> ''x> <'' ! i = CHR ''>'' \<and>
             ''x> <'' ! j = CHR ''<'' \<and> IsValidHTML (take i ''x> <'') = tags_left ts"
    by blast
  have n: "IsValidHTML ''1 > 0'' = Inr None"
    using closing_bracket_without_later_open [of "''1 > 0''" 0] by simp
  from n a b c show ?thesis by blast
qed

text \<open>
  The claim as written fails on \<^verbatim>\<open><b>\<close>: its \<^verbatim>\<open>>\<close> at index 2 has no
  \<^verbatim>\<open><\<close> at or after it, and the validator returns an error, the one for a tag left
  open.
\<close>

theorem closing_bracket_last_yet_rejected:
  "''<b>'' ! 2 = CHR ''>'' \<and> CHR ''<'' \<notin> set (drop 2 ''<b>'') \<and>
   IsValidHTML ''<b>'' = Inr (Some ''not all tags closed: [b]'')"
proof -
  have "IsValidHTML ''<b>'' = Inr (Some ''not all tags closed: [b]'')"
    by code_simp
  then show ?thesis by simp
qed

section \<open>Terminator lines and incomplete groups\<close>

lemma scan_loop_append_Next:
  "scan_loop line es cur xs = Next es' cur' \<Longrightarrow>
   scan_loop line es cur (xs @ ys) = scan_loop (line + length xs) es' cur' ys"
  by (simp add: scan_loop_append)

lemma scan_loop_append_Stop:
  "scan_loop line es cur xs = Stop r \<Longrightarrow> scan_loop line es cur (xs @ ys) = Stop r"
  by (simp add: scan_loop_append)

lemma role_cases:
  obtains "k mod 8 = (0::nat)" | "k mod 8 = 1" | "k mod 8 = 2" | "k mod 8 = 3"
    | "k mod 8 = 4" | "k mod 8 = 5" | "k mod 8 = 6" | "k mod 8 = 7"
proof -
  have "k mod 8 < 8" by simp
  then show thesis using that by linarith
qed

lemma check_html_not_clean_return: "check_html es cur dat \<noteq> Stop (Inr x)"
  by (simp add: check_html_def split: sum.splits option.splits)

lemma scan_line_Stop_has_reason: "scan_line (Suc k) es cur dat \<noteq> Stop (Inr (es', None))"
  by (rule role_cases [of k])
    (simp_all add: scan_line_ID scan_line_Usage scan_line_Translation scan_line_Word
      scan_line_Pronunciation scan_line_Definition scan_line_Tags scan_line_End
      check_html_not_clean_return split: sum.splits)

lemma scan_loop_Stop_has_reason: "scan_loop (Suc k) es cur xs \<noteq> Stop (Inr (es', None))"
proof (induction xs arbitrary: k es cur)
  case Nil
  show ?case by simp
next
  case (Cons d xs)
  show ?case
    using scan_line_Stop_has_reason [of k es cur d es'] Cons.IH [of "Suc k"]
    by (auto split: step.splits)
qed

lemma NewEntriesFromFile_clean_iff:
  "NewEntriesFromFile xs None = Inr (es, None) \<longleftrightarrow>
     (\<exists>cur. scan_loop 1 Entries_zero Entry_zero xs = Next es cur)"
  using scan_loop_Stop_has_reason [of 0 Entries_zero Entry_zero xs es]
  by (auto simp: NewEntriesFromFile_def split: step.splits)

lemma scan_line_keeps_entries:
  "k mod 8 \<noteq> 7 \<Longrightarrow> scan_line (Suc k) es cur dat = Next es' cur' \<Longrightarrow> es' = es"
  by (rule role_cases [of k])
    (auto simp: scan_line_ID scan_line_Usage scan_line_Translation scan_line_Word
      scan_line_Pronunciation scan_line_Definition scan_line_Tags
      dest: check_html_cases(2) split: sum.splits if_splits)

lemma scan_loop_keeps_entries:
  "scan_loop (Suc k) es cur xs = Next es' cur' \<Longrightarrow> k mod 8 + length xs \<le> 7 \<Longrightarrow> es' = es"
proof (induction xs arbitrary: k es cur)
  case Nil
  then show ?case by simp
next
  case (Cons d xs)
  from Cons.prems(2) have k: "k mod 8 \<noteq> 7" "Suc k mod 8 + length xs \<le> 7"
    by (auto simp: mod_Suc)
  from Cons.prems(1) obtain es1 cur1
    where 1: "scan_line (Suc k) es cur d = Next es1 cur1"
      and 2: "scan_loop (Suc (Suc k)) es1 cur1 xs = Next es' cur'"
    by (auto split: step.splits)
  from scan_line_keeps_entries [OF k(1) 1] Cons.IH [OF 2 k(2)]
  show ?case by simp
qed

text \<open>
  C5 (as amended). When the lines before a terminator-role line are scanned without an
  error or a panic and that line is not \<^verbatim>\<open>---\<close>, the call returns an
  \<^verbatim>\<open>EntriesParseError\<close> with the number and the content of that line, whose message
  is built from the line found and the delimiter expected. The storage returned with it
  is the storage of the groups before: the seven lines of the group in flight have
  changed nothing in it.
\<close>

theorem bad_terminator_is_parse_error:
  assumes "length pre mod (EntryEnd + 1) = EntryEnd"
    and "dat \<noteq> EntryDelimiter"
    and "NewEntriesFromFile pre None = Inr (es, None)"
  shows "NewEntriesFromFile (pre @ dat # post) scan_err =
           Inr (es, Some (EntriesParseError (length pre + 1) dat
                  (ReasonUnexpectedEnd (length pre + 1) dat EntryDelimiter))) \<and>
         NewEntriesFromFile (take (length pre - 7) pre) None = Inr (es, None)"
proof -
  from assms(1) have len: "length pre mod 8 = 7"
    by (simp add: role_defs)
  from assms(3) obtain cur where pre: "scan_loop 1 Entries_zero Entry_zero pre = Next es cur"
    by (auto simp: NewEntriesFromFile_clean_iff)
  have "scan_line (Suc (length pre)) es cur dat =
          Stop (Inr (es, Some (EntriesParseError (Suc (length pre)) dat
            (ReasonUnexpectedEnd (Suc (length pre)) dat ''---''))))"
    using assms(2) by (simp add: scan_line_End [OF len] offset_defs)
  then have first: "NewEntriesFromFile (pre @ dat # post) scan_err =
           Inr (es, Some (EntriesParseError (length pre + 1) dat
                  (ReasonUnexpectedEnd (length pre + 1) dat EntryDelimiter)))"
    using pre by (simp add: NewEntriesFromFile_def scan_loop_append offset_defs)
  define n where "n = length pre - 7"
  from len have "7 \<le> length pre"
    by presburger
  with len have n: "n mod 8 = 0" "length (take n pre) = n" "length (drop n pre) = 7"
    unfolding n_def by (presburger, simp_all)
  have split: "scan_loop 1 Entries_zero Entry_zero (take n pre @ drop n pre) = Next es cur"
    using pre by simp
  obtain es0 cur0
    where 0: "scan_loop 1 Entries_zero Entry_zero (take n pre) = Next es0 cur0"
      and 1: "scan_loop (Suc n) es0 cur0 (drop n pre) = Next es cur"
  proof (cases "scan_loop 1 Entries_zero Entry_zero (take n pre)")
    case (Stop r)
    from scan_loop_append_Stop [OF this, of "drop n pre"] split show ?thesis
      by simp
  next
    case (Next es0 cur0)
    from scan_loop_append_Next [OF this, of "drop n pre"] split n(2) that Next
    show ?thesis by simp
  qed
  from scan_loop_keeps_entries [OF 1] n have "es = es0"
    by simp
  with 0 have "NewEntriesFromFile (take n pre) None = Inr (es, None)"
    by (auto simp: NewEntriesFromFile_clean_iff)
  with first show ?thesis
    by (simp add: n_def)
qed
lemma cloze_at_length: "cloze_at s = Some m \<Longrightarrow> length m = 2"
  by (auto simp: cloze_at_def Let_def split: if_splits list.splits)

lemma FindStringSubmatch_length: "FindStringSubmatch s = Some m \<Longrightarrow> length m = 2"
  by (induction s) (auto split: option.splits dest: cloze_at_length)

lemma roles_after_ID:
  assumes "k mod 8 = (0::nat)"
  shows "Suc k mod 8 = 1" "Suc (Suc k) mod 8 = 2" "Suc (Suc (Suc k)) mod 8 = 3"
    "Suc (Suc (Suc (Suc k))) mod 8 = 4" "Suc (Suc (Suc (Suc (Suc k)))) mod 8 = 5"
    "Suc (Suc (Suc (Suc (Suc (Suc k))))) mod 8 = 6"
    "Suc (Suc (Suc (Suc (Suc (Suc (Suc k)))))) mod 8 = 7"
    "Suc (Suc (Suc (Suc (Suc (Suc (Suc (Suc k))))))) mod 8 = 0"
  using assms by presburger+

text \<open>
  The seven lines of a group whose prompt and translation hold a cloze deletion and pass
  the validator: the record in flight after them.
\<close>

lemma scan_seven_lines:
  assumes "k mod 8 = 0" and "4 \<le> length l0" and "ParseInt (take 4 l0) = Inr n"
    and "FindStringSubmatch l1 = Some m" and "IsValidHTML l1 = Inr None"
    and "FindStringSubmatch l2 \<noteq> None" and "IsValidHTML l2 = Inr None"
  shows "scan_loop (Suc k) es cur [l0, l1, l2, l3, l4, l5, l6] =
           Next es
             \<lparr>entry_id = n, dirty = (5 \<le> length l0 \<and> l0 ! 4 = CHR ''*''),
              comments = (if 7 \<le> length l0 then [drop 6 l0] else []),
              input = m ! 1, usage = l1, translation = l2, word = l3,
              pronunciation = l4, entry_definition = l5, tags = Split l6 (CHR '',''),
              \<dots> = Entry.more cur\<rparr>"
proof -
  note r = roles_after_ID [OF assms(1)]
  have 0: "scan_line (Suc k) es cur l0 =
             Next es (cur\<lparr>entry_id := n, dirty := (5 \<le> length l0 \<and> l0 ! 4 = CHR ''*''),
                        comments := (if 7 \<le> length l0 then [drop 6 l0] else [])\<rparr>)"
    using assms(2,3) by (simp add: scan_line_ID [OF assms(1)])
  have 1: "scan_line (Suc (Suc k)) es c l1 = Next es (c\<lparr>usage := l1, input := m ! 1\<rparr>)" for c
    using assms(4,5) FindStringSubmatch_length [OF assms(4)]
    by (simp add: scan_line_Usage [OF r(1)] check_html_def)
  have 2: "scan_line (Suc (Suc (Suc k))) es c l2 = Next es (c\<lparr>translation := l2\<rparr>)" for c
    using assms(6,7) by (auto simp add: scan_line_Translation [OF r(2)] check_html_def)
  show ?thesis
    by (simp add: 0 1 2 scan_line_Word [OF r(3)] scan_line_Pronunciation [OF r(4)]
        scan_line_Definition [OF r(5)] scan_line_Tags [OF r(6)])
qed

theorem bad_terminator_is_parse_error_witness:
  "NewEntriesFromFile
     [''0001'', ''{{c1::a}}'', ''{{c1::b}}'', ''w'', ''p'', ''d'', ''t'', ''--'', ''0002''] None =
   Inr (Entries_zero, Some (EntriesParseError 8 ''--'' (ReasonUnexpectedEnd 8 ''--'' ''---''))) \<and>
   NewEntriesFromFile [] None = Inr (Entries_zero, None)"
proof -
  have p: "ParseInt (take 4 ''0001'') = Inr 1"
    by code_simp
  have f: "FindStringSubmatch ''{{c1::a}}'' = Some [''{{c1::a}}'', ''a'']"
    "FindStringSubmatch ''{{c1::b}}'' \<noteq> None"
    by code_simp+
  have v: "IsValidHTML ''{{c1::a}}'' = Inr None" "IsValidHTML ''{{c1::b}}'' = Inr None"
    by code_simp+
  have "\<exists>cur. scan_loop 1 Entries_zero Entry_zero
          [''0001'', ''{{c1::a}}'', ''{{c1::b}}'', ''w'', ''p'', ''d'', ''t''] = Next Entries_zero cur"
    using scan_seven_lines [of 0 "''0001''" 1 "''{{c1::a}}''" _ "''{{c1::b}}''", OF _ _ p f(1) v(1) f(2) v(2)]
    by simp
  then have ok: "NewEntriesFromFile
      [''0001'', ''{{c1::a}}'', ''{{c1::b}}'', ''w'', ''p'', ''d'', ''t''] None =
      Inr (Entries_zero, None)"
    by (simp only: NewEntriesFromFile_clean_iff)
  show ?thesis
    using bad_terminator_is_parse_error
      [of "[''0001'', ''{{c1::a}}'', ''{{c1::b}}'', ''w'', ''p'', ''d'', ''t'']" "''--''"
        Entries_zero "[''0002'']" None] ok
    by (simp add: role_defs offset_defs)
qed

text \<open>
  The claim as written fails when an earlier line stops the scan first: here line 8 is
  not the delimiter, and the error returned is the one for the short ID on line 1, whose
  message names no delimiter.
\<close>

theorem bad_terminator_after_short_ID:
  "[''x'', '''', '''', '''', '''', '''', '''', ''bad''] ! EntryEnd \<noteq> EntryDelimiter \<and>
   NewEntriesFromFile [''x'', '''', '''', '''', '''', '''', '''', ''bad''] None =
     Inr (Entries_zero, Some (EntriesParseError 1 ''x'' (ReasonIDTooShort 1 ''x'' 1 4)))"
  using scan_line_ID [of 0 Entries_zero Entry_zero "''x''"]
  by (simp add: NewEntriesFromFile_def role_defs offset_defs)

lemma check_html_returns:
  "IsValidHTML dat = Inr v \<Longrightarrow> \<exists>cur'. check_html es cur dat = Next es cur'"
  by (cases v) (simp_all add: check_html_def)

lemma scan_line_quiet:
  assumes "k mod 8 \<noteq> 7"
    and "k mod 8 = 0 \<longrightarrow> 4 \<le> length d \<and> (\<exists>n. ParseInt (take 4 d) = Inr n)"
    and "k mod 8 = 1 \<or> k mod 8 = 2 \<longrightarrow> (\<exists>v. IsValidHTML d = Inr v)"
  shows "\<exists>cur'. scan_line (Suc k) es cur d = Next es cur'"
  using assms
  by (cases k rule: role_cases)
    (auto simp: scan_line_ID scan_line_Usage scan_line_Translation scan_line_Word
      scan_line_Pronunciation scan_line_Definition scan_line_Tags
      intro: check_html_returns)

lemma scan_loop_quiet:
  assumes "\<forall>i<length t. (k + i) mod 8 \<noteq> 7 \<and>
             ((k + i) mod 8 = 0 \<longrightarrow> 4 \<le> length (t ! i) \<and> (\<exists>n. ParseInt (take 4 (t ! i)) = Inr n)) \<and>
             ((k + i) mod 8 = 1 \<or> (k + i) mod 8 = 2 \<longrightarrow> (\<exists>v. IsValidHTML (t ! i) = Inr v))"
  shows "\<exists>cur'. scan_loop (Suc k) es cur t = Next es cur'"
  using assms
proof (induction t arbitrary: k cur)
  case Nil
  show ?case by simp
next
  case (Cons d t)
  from Cons.prems [rule_format, of 0]
  obtain cur1 where 1: "scan_line (Suc k) es cur d = Next es cur1"
    using scan_line_quiet [of k d es cur] by auto
  have "\<exists>cur'. scan_loop (Suc (Suc k)) es cur1 t = Next es cur'"
  proof (rule Cons.IH, intro allI impI)
    fix i assume "i < length t"
    with Cons.prems [rule_format, of "Suc i"]
    show "(Suc k + i) mod 8 \<noteq> 7 \<and>
          ((Suc k + i) mod 8 = 0 \<longrightarrow> 4 \<le> length (t ! i) \<and> (\<exists>n. ParseInt (take 4 (t ! i)) = Inr n)) \<and>
          ((Suc k + i) mod 8 = 1 \<or> (Suc k + i) mod 8 = 2 \<longrightarrow> (\<exists>v. IsValidHTML (t ! i) = Inr v))"
      by simp
  qed
  with 1 show ?case by simp
qed

lemma scan_line_Stop_storage:
  "scan_line (Suc k) es cur dat = Stop (Inr (es', e)) \<Longrightarrow> es' = es"
  by (rule role_cases [of k])
    (auto simp: scan_line_ID scan_line_Usage scan_line_Translation scan_line_Word
      scan_line_Pronunciation scan_line_Definition scan_line_Tags scan_line_End
      check_html_not_clean_return split: sum.splits if_splits)

lemma scan_loop_Stop_storage:
  "scan_loop (Suc k) es cur xs = Stop (Inr (es', e)) \<Longrightarrow> k mod 8 + length xs \<le> 7 \<Longrightarrow> es' = es"
proof (induction xs arbitrary: k es cur)
  case Nil
  then show ?case by simp
next
  case (Cons d xs)
  from Cons.prems(2) have k: "k mod 8 \<noteq> 7" "Suc k mod 8 + length xs \<le> 7"
    by (auto simp: mod_Suc)
  show ?case
  proof (cases "scan_line (Suc k) es cur d")
    case (Stop r)
    with Cons.prems(1) scan_line_Stop_storage [of k es cur d es' e] show ?thesis
      by simp
  next
    case (Next es1 cur1)
    with Cons.prems(1) have "scan_loop (Suc (Suc k)) es1 cur1 xs = Stop (Inr (es', e))"
      by simp
    from Cons.IH [OF this k(2)] scan_line_keeps_entries [OF k(1) Next]
    show ?thesis by simp
  qed
qed

text \<open>
  C7 (as amended). When the final group is incomplete, whatever the call returns it
  returns with the storage of the input without those trailing lines: nothing of the
  incomplete group is committed. When moreover the ID line of the incomplete group is
  well formed (at least 4 bytes, the first 4 an integer) and the validator returns on
  its prompt and translation lines, the call returns exactly what it returns on the
  input without the trailing lines: the same storage and the same error or \<open>nil\<close>.
\<close>

theorem incomplete_final_group_is_dropped:
  assumes "length pre mod (EntryEnd + 1) = 0"
    and "rest \<noteq> []" and "length rest \<le> EntryEnd"
  shows "(digitsOffset + 1 \<le> length (rest ! EntryID) \<and>
          (\<exists>n. ParseInt (take (digitsOffset + 1) (rest ! EntryID)) = Inr n) \<and>
          (EntryUsage < length rest \<longrightarrow> (\<exists>v. IsValidHTML (rest ! EntryUsage) = Inr v)) \<and>
          (EntryTranslation < length rest \<longrightarrow>
             (\<exists>v. IsValidHTML (rest ! EntryTranslation) = Inr v)) \<longrightarrow>
          NewEntriesFromFile (pre @ rest) scan_err = NewEntriesFromFile pre scan_err) \<and>
         (\<forall>es err. NewEntriesFromFile (pre @ rest) scan_err = Inr (es, err) \<longrightarrow>
            (\<exists>err'. NewEntriesFromFile pre scan_err = Inr (es, err')))"
proof (cases "scan_loop 1 Entries_zero Entry_zero pre")
  case (Stop r)
  from scan_loop_append_Stop [OF this, of rest] Stop show ?thesis
    by (simp add: NewEntriesFromFile_def)
next
  case (Next es0 cur0)
  from assms(1) have k: "length pre mod 8 = 0"
    by (simp add: role_defs)
  from assms(3) have short: "length pre mod 8 + length rest \<le> 7"
    by (simp add: k role_defs)
  note app = scan_loop_append_Next [OF Next, of rest]
  have first: "NewEntriesFromFile (pre @ rest) scan_err = NewEntriesFromFile pre scan_err"
    if wf: "4 \<le> length (rest ! 0)" "ParseInt (take 4 (rest ! 0)) = Inr n"
      "1 < length rest \<longrightarrow> (\<exists>v. IsValidHTML (rest ! 1) = Inr v)"
      "2 < length rest \<longrightarrow> (\<exists>v. IsValidHTML (rest ! 2) = Inr v)" for n
  proof -
    have "\<exists>cur'. scan_loop (Suc (length pre)) es0 cur0 rest = Next es0 cur'"
    proof (rule scan_loop_quiet, intro allI impI)
      fix i assume i: "i < length rest"
      with assms(3) have "i < 7"
        by (simp add: role_defs)
      with k have role: "(length pre + i) mod 8 = i"
        by presburger
      from i wf \<open>i < 7\<close>
      show "(length pre + i) mod 8 \<noteq> 7 \<and>
            ((length pre + i) mod 8 = 0 \<longrightarrow>
               4 \<le> length (rest ! i) \<and> (\<exists>n. ParseInt (take 4 (rest ! i)) = Inr n)) \<and>
            ((length pre + i) mod 8 = 1 \<or> (length pre + i) mod 8 = 2 \<longrightarrow>
               (\<exists>v. IsValidHTML (rest ! i) = Inr v))"
        unfolding role by auto
    qed
    then obtain cur' where "scan_loop (Suc (length pre)) es0 cur0 rest = Next es0 cur'" ..
    with app Next show ?thesis
      by (simp add: NewEntriesFromFile_def)
  qed
  have second: "\<exists>err'. NewEntriesFromFile pre scan_err = Inr (es, err')"
    if ret: "NewEntriesFromFile (pre @ rest) scan_err = Inr (es, err)" for es err
  proof (cases "scan_loop (Suc (length pre)) es0 cur0 rest")
    case (Stop r)
    with app ret have "scan_loop (Suc (length pre)) es0 cur0 rest = Stop (Inr (es, err))"
      by (simp add: NewEntriesFromFile_def)
    from scan_loop_Stop_storage [OF this short] Next show ?thesis
      by (simp add: NewEntriesFromFile_def split: option.splits)
  next
    case (Next es1 cur1)
    from scan_loop_keeps_entries [OF this short] have "es1 = es0" .
    with app ret Next \<open>scan_loop 1 Entries_zero Entry_zero pre = Next es0 cur0\<close>
    show ?thesis
      by (auto simp: NewEntriesFromFile_def split: option.splits)
  qed
  from first second show ?thesis
    by (auto simp: role_defs offset_defs)
qed

theorem incomplete_final_group_is_dropped_witness:
  "NewEntriesFromFile [''0002'', ''{{c1::a}} <b>'', ''t''] None = Inr (Entries_zero, None) \<and>
   (\<exists>err'. NewEntriesFromFile [] None = Inr (Entries_zero, err'))"
proof -
  have p: "ParseInt (take 4 ''0002'') = Inr 2"
    by code_simp
  have v: "IsValidHTML ''{{c1::a}} <b>'' = Inr (Some ''not all tags closed: [b]'')"
    "IsValidHTML ''t'' = Inr None"
    by code_simp+
  have x: "NewEntriesFromFile ([] @ [''x'']) None =
             Inr (Entries_zero, Some (EntriesParseError 1 ''x'' (ReasonIDTooShort 1 ''x'' 1 4)))"
    using scan_line_ID [of 0 Entries_zero Entry_zero "''x''"]
    by (simp add: NewEntriesFromFile_def)
  have a: "NewEntriesFromFile [''0002'', ''{{c1::a}} <b>'', ''t''] None = Inr (Entries_zero, None)"
    using incomplete_final_group_is_dropped
      [of "[]" "[''0002'', ''{{c1::a}} <b>'', ''t'']" None] p v
    by (simp add: role_defs offset_defs NewEntriesFromFile_def)
  have b: "\<exists>err'. NewEntriesFromFile [] None = Inr (Entries_zero, err')"
    using incomplete_final_group_is_dropped [of "[]" "[''x'']" None] x
    by (simp add: role_defs)
  from a b show ?thesis ..
qed

text \<open>
  The claim as written fails when the ID line of the incomplete group is malformed: the
  one-line input \<^verbatim>\<open>x\<close> returns an error, the empty input returns none.
\<close>

theorem incomplete_final_group_with_short_ID:
  "NewEntriesFromFile [''x''] None =
     Inr (Entries_zero, Some (EntriesParseError 1 ''x'' (ReasonIDTooShort 1 ''x'' 1 4))) \<and>
   NewEntriesFromFile [] None = Inr (Entries_zero, None)"
  using scan_line_ID [of 0 Entries_zero Entry_zero "''x''"]
  by (simp add: NewEntriesFromFile_def)

section \<open>Well-formed input\<close>

lemma length_Entries_zero: "length Entries_zero = 2200"
  by (simp add: Entries_zero_def)

lemma eight_lines:
  assumes "length g = 8"
  obtains l0 l1 l2 l3 l4 l5 l6 l7 where "g = [l0, l1, l2, l3, l4, l5, l6, l7]"
  using assms by (auto simp: length_Suc_conv numeral_eq_Suc)

lemma scan_clean_group:
  assumes "k mod 8 = 0" and "clean_group g" and "length es = 2200"
  shows "scan_loop (Suc k) es Entry_zero g = Next (commit es g) Entry_zero"
proof -
  from assms(2) have "length g = 8"
    by (simp add: clean_group_def role_defs)
  then obtain l0 l1 l2 l3 l4 l5 l6 l7 where g: "g = [l0, l1, l2, l3, l4, l5, l6, l7]"
    by (rule eight_lines)
  from assms(2) obtain n m where c:
    "l7 = ''---''" "4 \<le> length l0" "length l0 \<le> 6" "\<not> (5 \<le> length l0 \<and> l0 ! 4 = CHR ''*'')"
    "ParseInt (take 4 l0) = Inr n" "1 \<le> n" "n \<le> 2200"
    "FindStringSubmatch l1 = Some m" "IsValidHTML l1 = Inr None"
    "FindStringSubmatch l2 \<noteq> None" "IsValidHTML l2 = Inr None"
    unfolding g clean_group_def
    by (auto simp: role_defs offset_defs split: sum.splits)
  have seven: "scan_loop (Suc k) es Entry_zero [l0, l1, l2, l3, l4, l5, l6] =
                 Next es (clean_entry g)"
    using scan_seven_lines [OF assms(1) c(2) c(5) c(8) c(9) c(10) c(11), of es Entry_zero l3 l4 l5 l6] c
    by (simp add: g clean_entry_def id_of_line_def cloze_of_line_def Entry_zero_def
        role_defs offset_defs)
  from scan_line_End [OF roles_after_ID(7) [OF assms(1)], of es "clean_entry g" l7]
  have last: "scan_line (Suc (Suc (Suc (Suc (Suc (Suc (Suc (Suc k)))))))) es (clean_entry g) l7 =
                Next (commit es g) Entry_zero"
    using c assms(3)
    by (simp add: commit_def clean_entry_def id_of_line_def g role_defs offset_defs)
  have "scan_loop (Suc k) es Entry_zero ([l0, l1, l2, l3, l4, l5, l6] @ [l7]) =
          Next (commit es g) Entry_zero"
    unfolding scan_loop_append_Next [OF seven] by (simp add: last)
  then show ?thesis
    by (simp add: g)
qed

lemma length_commit: "length (commit es g) = length es"
  by (simp add: commit_def)

lemma scan_clean_groups:
  assumes "k mod 8 = 0" and "\<forall>g\<in>set gs. clean_group g" and "length es = 2200"
  shows "scan_loop (Suc k) es Entry_zero (concat gs) = Next (foldl commit es gs) Entry_zero"
  using assms
proof (induction gs arbitrary: k es)
  case Nil
  show ?case by simp
next
  case (Cons g gs)
  from Cons.prems have g: "clean_group g" and len: "length g = 8"
    by (simp_all add: clean_group_def role_defs)
  from Cons.prems(1) have k: "(k + 8) mod 8 = 0"
    by simp
  have "scan_loop (Suc k) es Entry_zero (g @ concat gs) =
          scan_loop (Suc (k + 8)) (commit es g) Entry_zero (concat gs)"
    unfolding scan_loop_append_Next [OF scan_clean_group [OF Cons.prems(1) g Cons.prems(3)]]
    by (simp add: len)
  also have "\<dots> = Next (foldl commit (commit es g) gs) Entry_zero"
    using Cons.prems by (intro Cons.IH [OF k]) (simp_all add: length_commit)
  finally show ?case by simp
qed

lemma length_foldl_commit: "length (foldl commit es gs) = length es"
  by (induction gs arbitrary: es) (simp_all add: length_commit)

lemma foldl_commit_other:
  "\<forall>g\<in>set gs. nat (id_of_line (g ! EntryID) - 1) \<noteq> i \<Longrightarrow> foldl commit es gs ! i = es ! i"
  by (induction gs arbitrary: es) (simp_all add: commit_def)

lemma clean_group_id:
  "clean_group g \<Longrightarrow> 1 \<le> id_of_line (g ! EntryID) \<and> id_of_line (g ! EntryID) \<le> 2200"
  by (auto simp: clean_group_def id_of_line_def split: sum.splits)

lemma foldl_commit_hit:
  assumes "\<forall>g\<in>set gs. clean_group g" and "distinct (map (\<lambda>g. id_of_line (g ! EntryID)) gs)"
    and "g \<in> set gs" and "length es = 2200"
  shows "foldl commit es gs ! nat (id_of_line (g ! EntryID) - 1) = clean_entry g"
  using assms
proof (induction gs arbitrary: es)
  case Nil
  then show ?case by simp
next
  case (Cons h gs)
  show ?case
  proof (cases "g \<in> set gs")
    case True
    with Cons.prems show ?thesis
      by (simp add: Cons.IH length_commit)
  next
    case False
    with Cons.prems have h: "g = h"
      by simp
    have "\<forall>x\<in>set gs. nat (id_of_line (x ! EntryID) - 1) \<noteq> nat (id_of_line (h ! EntryID) - 1)"
    proof
      fix x assume x: "x \<in> set gs"
      then have "id_of_line (x ! EntryID) \<in> (\<lambda>g. id_of_line (g ! EntryID)) ` set gs"
        by (rule imageI)
      with Cons.prems(2) have "id_of_line (x ! EntryID) \<noteq> id_of_line (h ! EntryID)"
        by auto
      moreover from x Cons.prems(1) have "1 \<le> id_of_line (x ! EntryID)" "1 \<le> id_of_line (h ! EntryID)"
        by (simp_all add: clean_group_id)
      ultimately show "nat (id_of_line (x ! EntryID) - 1) \<noteq> nat (id_of_line (h ! EntryID) - 1)"
        by simp
    qed
    from foldl_commit_other [OF this, of "commit es h"]
    have "foldl commit (commit es h) gs ! nat (id_of_line (h ! EntryID) - 1) =
            commit es h ! nat (id_of_line (h ! EntryID) - 1)" .
    also have "\<dots> = clean_entry h"
    proof -
      from clean_group_id [of h] Cons.prems(1,4)
      have "nat (id_of_line (h ! EntryID) - 1) < length es"
        by auto
      then show ?thesis
        by (simp add: commit_def)
    qed
    finally show ?thesis
      by (simp add: h)
  qed
qed

text \<open>
  C1 (as amended). For every input made of clean groups with pairwise distinct ids,
  \<^verbatim>\<open>NewEntriesFromFile\<close> returns no error, and the storage holds exactly one
  record per group: at slot \<open>id - 1\<close> the record built from the group, with its id,
  \<open>dirty = False\<close> and no comments, and the zero \<^verbatim>\<open>Entry\<close> in every slot that is
  \<open>id - 1\<close> for no group.
\<close>

theorem clean_groups_one_record_each:
  assumes "\<forall>g\<in>set gs. clean_group g"
    and "distinct (map (\<lambda>g. id_of_line (g ! EntryID)) gs)"
  shows "\<exists>entries.
           NewEntriesFromFile (concat gs) None = Inr (entries, None) \<and>
           length entries = 2200 \<and>
           (\<forall>g\<in>set gs.
              entries ! nat (id_of_line (g ! EntryID) - 1) = clean_entry g \<and>
              entry_id (clean_entry g) = id_of_line (g ! EntryID) \<and>
              \<not> dirty (clean_entry g) \<and> comments (clean_entry g) = []) \<and>
           (\<forall>i<2200. (\<forall>g\<in>set gs. id_of_line (g ! EntryID) \<noteq> int i + 1) \<longrightarrow>
              entries ! i = Entry_zero)"
proof (intro exI conjI ballI allI impI)
  show "NewEntriesFromFile (concat gs) None = Inr (foldl commit Entries_zero gs, None)"
    using scan_clean_groups [of 0 gs Entries_zero] assms(1)
    by (simp add: NewEntriesFromFile_def length_Entries_zero)
  show "length (foldl commit Entries_zero gs) = 2200"
    by (simp add: length_foldl_commit length_Entries_zero)
next
  fix g assume "g \<in> set gs"
  with assms show "foldl commit Entries_zero gs ! nat (id_of_line (g ! EntryID) - 1) = clean_entry g"
    by (intro foldl_commit_hit) (simp_all add: length_Entries_zero)
  show "entry_id (clean_entry g) = id_of_line (g ! EntryID)" "\<not> dirty (clean_entry g)"
    "comments (clean_entry g) = []"
    by (simp_all add: clean_entry_def)
next
  fix i :: nat
  assume i: "i < 2200" and other: "\<forall>g\<in>set gs. id_of_line (g ! EntryID) \<noteq> int i + 1"
  have "\<forall>g\<in>set gs. nat (id_of_line (g ! EntryID) - 1) \<noteq> i"
  proof
    fix g assume "g \<in> set gs"
    with other assms(1) have "id_of_line (g ! EntryID) \<noteq> int i + 1" "1 \<le> id_of_line (g ! EntryID)"
      by (simp_all add: clean_group_id)
    then show "nat (id_of_line (g ! EntryID) - 1) \<noteq> i"
      by linarith
  qed
  from foldl_commit_other [OF this] i show "foldl commit Entries_zero gs ! i = Entry_zero"
    by (simp add: Entries_zero_def)
qed
theorem clean_groups_one_record_each_witness:
  "\<exists>entries.
     NewEntriesFromFile
       [''0002'', ''a {{c1::x}} <b>y</b>'', ''{{c1::z}}'', ''w'', ''p'', ''d'', ''t1,t2'', ''---'',
        ''0001 '', ''{{c3::u}}'', ''<i>{{c4::v}}</i>'', ''W'', ''P'', ''D'', '''', ''---''] None =
       Inr (entries, None) \<and>
     entries ! 1 =
       \<lparr>entry_id = 2, dirty = False, comments = [], input = ''x'',
        usage = ''a {{c1::x}} <b>y</b>'', translation = ''{{c1::z}}'', word = ''w'',
        pronunciation = ''p'', entry_definition = ''d'', tags = [''t1'', ''t2'']\<rparr> \<and>
     entries ! 0 =
       \<lparr>entry_id = 1, dirty = False, comments = [], input = ''u'',
        usage = ''{{c3::u}}'', translation = ''<i>{{c4::v}}</i>'', word = ''W'',
        pronunciation = ''P'', entry_definition = ''D'', tags = ['''']\<rparr>"
proof -
  let ?g1 = "[''0002'', ''a {{c1::x}} <b>y</b>'', ''{{c1::z}}'', ''w'', ''p'', ''d'', ''t1,t2'', ''---'']"
  let ?g2 = "[''0001 '', ''{{c3::u}}'', ''<i>{{c4::v}}</i>'', ''W'', ''P'', ''D'', '''', ''---'']"
  have clean: "clean_group ?g1" "clean_group ?g2"
    by code_simp+
  have ids: "id_of_line ''0002'' = 2" "id_of_line ''0001 '' = 1"
    by code_simp+
  have entries:
    "clean_entry ?g1 =
       \<lparr>entry_id = 2, dirty = False, comments = [], input = ''x'',
        usage = ''a {{c1::x}} <b>y</b>'', translation = ''{{c1::z}}'', word = ''w'',
        pronunciation = ''p'', entry_definition = ''d'', tags = [''t1'', ''t2'']\<rparr>"
    "clean_entry ?g2 =
       \<lparr>entry_id = 1, dirty = False, comments = [], input = ''u'',
        usage = ''{{c3::u}}'', translation = ''<i>{{c4::v}}</i>'', word = ''W'',
        pronunciation = ''P'', entry_definition = ''D'', tags = ['''']\<rparr>"
    by code_simp+
  from clean_groups_one_record_each [of "[?g1, ?g2]"] clean ids
  obtain entries where
    "NewEntriesFromFile (concat [?g1, ?g2]) None = Inr (entries, None)"
    "entries ! nat (id_of_line (?g1 ! EntryID) - 1) = clean_entry ?g1"
    "entries ! nat (id_of_line (?g2 ! EntryID) - 1) = clean_entry ?g2"
    by (auto simp: role_defs)
  then show ?thesis
    by (simp add: role_defs ids entries)
qed

text \<open>
  A whole group with clean prompt and translation lines and a well-formed ID line,
  whatever its id, marker and comment: the commit at the terminator line, or the panic
  when \<open>id - 1\<close> is no index of the storage.
\<close>

lemma scan_eight_lines:
  assumes "k mod 8 = 0" and "4 \<le> length l0" and "ParseInt (take 4 l0) = Inr n"
    and "FindStringSubmatch l1 = Some m" and "IsValidHTML l1 = Inr None"
    and "FindStringSubmatch l2 \<noteq> None" and "IsValidHTML l2 = Inr None"
  shows "scan_loop (Suc k) es cur [l0, l1, l2, l3, l4, l5, l6, ''---''] =
           (if n - 1 < 0 \<or> int (length es) \<le> n - 1
            then Stop (Inl (IndexOutOfRange (n - 1) (length es)))
            else Next
              (es[nat (n - 1) :=
                 \<lparr>entry_id = n, dirty = (5 \<le> length l0 \<and> l0 ! 4 = CHR ''*''),
                  comments = (if 7 \<le> length l0 then [drop 6 l0] else []),
                  input = m ! 1, usage = l1, translation = l2, word = l3,
                  pronunciation = l4, entry_definition = l5,
                  tags = Split l6 (CHR '',''), \<dots> = Entry.more cur\<rparr>])
              Entry_zero)"
proof -
  note r = roles_after_ID [OF assms(1)]
  have 0: "scan_line (Suc k) es c l0 =
             Next es (c\<lparr>entry_id := n, dirty := (5 \<le> length l0 \<and> l0 ! 4 = CHR ''*''),
                        comments := (if 7 \<le> length l0 then [drop 6 l0] else [])\<rparr>)" for c
    using assms(2,3) by (simp add: scan_line_ID [OF assms(1)])
  have 1: "scan_line (Suc (Suc k)) es c l1 = Next es (c\<lparr>usage := l1, input := m ! 1\<rparr>)" for c
    using assms(4,5) FindStringSubmatch_length [OF assms(4)]
    by (simp add: scan_line_Usage [OF r(1)] check_html_def)
  have 2: "scan_line (Suc (Suc (Suc k))) es c l2 = Next es (c\<lparr>translation := l2\<rparr>)" for c
    using assms(6,7) by (auto simp add: scan_line_Translation [OF r(2)] check_html_def)
  show ?thesis
    by (cases cur)
      (simp add: 0 1 2 scan_line_Word [OF r(3)] scan_line_Pronunciation [OF r(4)]
        scan_line_Definition [OF r(5)] scan_line_Tags [OF r(6)] scan_line_End [OF r(7)])
qed

text \<open>
  The claim as written fails on a group whose ID line carries the dirty marker: every
  line has its role, the group ends with the delimiter, both the prompt and the
  translation hold a cloze deletion and pass the validator, and the record committed to
  slot 0 is dirty.
\<close>

theorem marked_group_commits_dirty_record:
  "FindStringSubmatch ''{{c1::a}}'' \<noteq> None \<and> IsValidHTML ''{{c1::a}}'' = Inr None \<and>
   FindStringSubmatch ''{{c1::b}}'' \<noteq> None \<and> IsValidHTML ''{{c1::b}}'' = Inr None \<and>
   NewEntriesFromFile
     [''0001*'', ''{{c1::a}}'', ''{{c1::b}}'', ''w'', ''p'', ''d'', ''t'', ''---''] None =
     Inr (Entries_zero[0 :=
            \<lparr>entry_id = 1, dirty = True, comments = [], input = ''a'',
             usage = ''{{c1::a}}'', translation = ''{{c1::b}}'', word = ''w'',
             pronunciation = ''p'', entry_definition = ''d'', tags = [''t'']\<rparr>], None)"
proof -
  have p: "ParseInt (take 4 ''0001*'') = Inr 1"
    by code_simp
  have f: "FindStringSubmatch ''{{c1::a}}'' = Some [''{{c1::a}}'', ''a'']"
    "FindStringSubmatch ''{{c1::b}}'' \<noteq> None"
    by code_simp+
  have v: "IsValidHTML ''{{c1::a}}'' = Inr None" "IsValidHTML ''{{c1::b}}'' = Inr None"
    by code_simp+
  have t: "Split ''t'' (CHR '','') = [''t'']"
    by code_simp
  from scan_eight_lines [of 0 "''0001*''", OF _ _ p f(1) v(1) f(2) v(2),
      of Entries_zero Entry_zero "''w''" "''p''" "''d''" "''t''"]
  show ?thesis
    by (simp add: NewEntriesFromFile_def length_Entries_zero Entry_zero_def f v t
        del: scan_loop.simps FindStringSubmatch.simps)
qed

section \<open>Ids outside the storage\<close>

text \<open>
  C6. An ID line is accepted whenever its first four bytes parse, whatever the
  number; the commit then indexes the 2200 slots with \<open>id - 1\<close> unchecked. On a
  group with the ID \<^verbatim>\<open>0000\<close>, whose other lines are clean, no parse error is
  raised and the call panics at the terminator line with index \<open>-1\<close> out of range.
\<close>

theorem id_zero_commit_panics:
  "NewEntriesFromFile
     [''0000'', ''{{c1::a}}'', ''{{c1::b}}'', ''w'', ''p'', ''d'', ''t'', ''---''] None =
   Inl (IndexOutOfRange (- 1) 2200)"
proof -
  have p: "ParseInt (take 4 ''0000'') = Inr 0"
    by code_simp
  have f: "FindStringSubmatch ''{{c1::a}}'' = Some [''{{c1::a}}'', ''a'']"
    "FindStringSubmatch ''{{c1::b}}'' \<noteq> None"
    by code_simp+
  have v: "IsValidHTML ''{{c1::a}}'' = Inr None" "IsValidHTML ''{{c1::b}}'' = Inr None"
    by code_simp+
  from scan_eight_lines [of 0 "''0000''", OF _ _ p f(1) v(1) f(2) v(2),
      of Entries_zero Entry_zero "''w''" "''p''" "''d''" "''t''"]
  show ?thesis
    by (simp add: NewEntriesFromFile_def length_Entries_zero del: scan_loop.simps)
qed

section \<open>A prompt line without a cloze deletion\<close>

text \<open>
  Where the validator returns on the prompt line, the line without a cloze deletion
  marks the record dirty, appends the note (and after it the validator's message, if
  any), and the loop goes on with the storage untouched.
\<close>

lemma usage_without_cloze_when_validator_returns:
  assumes "k mod 8 = 1" and "FindStringSubmatch dat = None" and "IsValidHTML dat = Inr v"
  shows "scan_line (Suc k) es cur dat =
           Next es (cur\<lparr>usage := dat, dirty := True,
                      comments := comments cur @ [''usage is missing cloze deletion.''] @
                        (case v of None \<Rightarrow> [] | Some msg \<Rightarrow> [msg])\<rparr>)"
  using assms(2,3)
  by (cases v) (simp_all add: scan_line_Usage [OF assms(1)] check_html_def mark_dirty_def)

text \<open>
  C8. A prompt line with no cloze deletion on which the validator panics: the record
  is marked and the note appended, and the next statement, the call of
  \<^verbatim>\<open>IsValidHTML\<close>, ends the whole program. On the prompt line \<^verbatim>\<open></b>\<close> the scan
  aborts on line 2 and no later line is processed.
\<close>

theorem usage_without_cloze_can_abort:
  "FindStringSubmatch ''</b>'' = None \<and>
   NewEntriesFromFile
     [''0001'', ''</b>'', ''{{c1::b}}'', ''w'', ''p'', ''d'', ''t'', ''---''] None =
   Inl (IndexOutOfRange (- 1) 0)"
proof -
  have p: "ParseInt (take 4 ''0001'') = Inr 1"
    by code_simp
  have f: "FindStringSubmatch ''</b>'' = None"
    by code_simp
  have v: "IsValidHTML ''</b>'' = Inl (IndexOutOfRange (- 1) 0)"
    by code_simp
  have "scan_line (Suc 0) Entries_zero Entry_zero ''0001'' =
          Next Entries_zero (Entry_zero\<lparr>entry_id := 1, dirty := False, comments := []\<rparr>)"
    using p by (simp add: scan_line_ID)
  moreover have "scan_line (Suc 1) Entries_zero c ''</b>'' = Stop (Inl (IndexOutOfRange (- 1) 0))" for c
    using f v by (simp add: scan_line_Usage check_html_def)
  ultimately show ?thesis
    using f by (simp add: NewEntriesFromFile_def del: FindStringSubmatch.simps)
qed

end
